theory Spec2Isabelle
  imports
    Main
    "HOL-Library.Char_ord"
    "HOL-Library.List_Lexorder"
    "HOL-Library.Option_ord"
    "HOL-Library.Product_Lexorder"
begin

section \<open>The store of navbat.py\<close>

text \<open>
  The program keeps its whole state in one SQLite database with four tables
  (\<^verbatim>\<open>providers\<close>, \<^verbatim>\<open>services\<close>, \<^verbatim>\<open>queues\<close>, \<^verbatim>\<open>busy_times\<close>). A table is a list
  of rows in insertion (rowid) order. Every table declares
  \<^verbatim>\<open>id INTEGER PRIMARY KEY AUTOINCREMENT\<close>, so each table carries the largest rowid it
  has ever handed out and an insert takes the next one. Python integers are \<open>int\<close>,
  TEXT columns are strings, a nullable TEXT column is a \<open>string option\<close>
  (\<open>None\<close> is SQL NULL and Python \<^verbatim>\<open>None\<close>). The column \<^verbatim>\<open>created_at\<close> of
  \<^verbatim>\<open>queues\<close> is never read by the program and is left out.
\<close>

record provider_row =
  p_id :: int
  p_owner_id :: int
  p_name :: string
  p_ref_code :: string

record service_row =
  s_id :: int
  s_provider_id :: int
  s_name :: string

record queue_row =
  q_id :: int
  q_provider_id :: int
  q_user_id :: int
  q_service_id :: int
  q_position :: int
  q_date :: "string option"
  q_time :: "string option"

record busy_row =
  b_id :: int
  b_provider_id :: int
  b_date :: string
  b_time :: string

record db =
  providers :: "provider_row list"
  services :: "service_row list"
  queues :: "queue_row list"
  busy_times :: "busy_row list"
  seq_providers :: int
  seq_services :: int
  seq_queues :: int
  seq_busy_times :: int

text \<open>\<^verbatim>\<open>sqlite3.IntegrityError\<close>: a UNIQUE or FOREIGN KEY constraint failed
  (\<^verbatim>\<open>PRAGMA foreign_keys=ON\<close>); the failing statement changes nothing.
  \<^verbatim>\<open>ValueError\<close>: a tuple unpacked into the wrong number of names.\<close>

datatype error = IntegrityError | ValueError

definition empty_db :: db where
  "empty_db = \<lparr>providers = [], services = [], queues = [], busy_times = [],
     seq_providers = 0, seq_services = 0, seq_queues = 0, seq_busy_times = 0\<rparr>"

text \<open>\<^verbatim>\<open>fetchone\<close> on a query with \<^verbatim>\<open>LIMIT 1\<close> or without it: the first row of the
  result, or \<^verbatim>\<open>None\<close>.\<close>

definition fetchone :: "'a list \<Rightarrow> 'a option" where
  "fetchone rows = (case rows of [] \<Rightarrow> None | r # _ \<Rightarrow> Some r)"

subsection \<open>Directory\<close>

text \<open>\<^verbatim>\<open>create_provider\<close>: the referral code is the first 8 characters of a fresh
  \<^verbatim>\<open>uuid4\<close>; it is an input of the model. The only constraint the insert can violate is
  \<^verbatim>\<open>ref_code TEXT UNIQUE\<close>; the column \<^verbatim>\<open>owner_id\<close> carries no uniqueness constraint.\<close>

definition create_provider :: "db \<Rightarrow> int \<Rightarrow> string \<Rightarrow> string \<Rightarrow> error + (string \<times> db)" where
  "create_provider s owner_id name ref_code =
     (if ref_code \<in> set (map p_ref_code (providers s)) then Inl IntegrityError
      else Inr (ref_code,
        s\<lparr>providers := providers s @
             [\<lparr>p_id = seq_providers s + 1, p_owner_id = owner_id,
               p_name = name, p_ref_code = ref_code\<rparr>],
          seq_providers := seq_providers s + 1\<rparr>))"

definition get_provider_by_ref :: "db \<Rightarrow> string \<Rightarrow> (int \<times> string) option" where
  "get_provider_by_ref s ref_code =
     map_option (\<lambda>r. (p_id r, p_name r))
       (fetchone (filter (\<lambda>r. p_ref_code r = ref_code) (providers s)))"

definition get_provider_by_owner :: "db \<Rightarrow> int \<Rightarrow> (int \<times> string \<times> string) option" where
  "get_provider_by_owner s owner_id =
     map_option (\<lambda>r. (p_id r, p_name r, p_ref_code r))
       (fetchone (filter (\<lambda>r. p_owner_id r = owner_id) (providers s)))"

definition get_provider_owner :: "db \<Rightarrow> int \<Rightarrow> int option" where
  "get_provider_owner s provider_id =
     map_option p_owner_id (fetchone (filter (\<lambda>r. p_id r = provider_id) (providers s)))"

definition get_services :: "db \<Rightarrow> int \<Rightarrow> (int \<times> string) list" where
  "get_services s provider_id =
     map (\<lambda>r. (s_id r, s_name r))
       (sort_key s_id (filter (\<lambda>r. s_provider_id r = provider_id) (services s)))"

text \<open>\<^verbatim>\<open>add_service\<close> catches the \<^verbatim>\<open>IntegrityError\<close> of the insert (the foreign key to
  \<^verbatim>\<open>providers\<close> or \<^verbatim>\<open>UNIQUE(provider_id, name)\<close>) and returns \<^verbatim>\<open>False\<close>.\<close>

definition add_service :: "db \<Rightarrow> int \<Rightarrow> string \<Rightarrow> bool \<times> db" where
  "add_service s provider_id name =
     (if provider_id \<notin> set (map p_id (providers s))
         \<or> (provider_id, name) \<in> set (map (\<lambda>r. (s_provider_id r, s_name r)) (services s))
      then (False, s)
      else (True,
        s\<lparr>services := services s @
             [\<lparr>s_id = seq_services s + 1, s_provider_id = provider_id, s_name = name\<rparr>],
          seq_services := seq_services s + 1\<rparr>))"

text \<open>\<^verbatim>\<open>DELETE FROM providers WHERE id=?\<close> with the schema's \<^verbatim>\<open>ON DELETE CASCADE\<close>
  clauses: \<^verbatim>\<open>services.provider_id\<close>, \<^verbatim>\<open>queues.provider_id\<close>,
  \<^verbatim>\<open>busy_times.provider_id\<close> refer to \<^verbatim>\<open>providers(id)\<close>, and \<^verbatim>\<open>queues.service_id\<close>
  refers to \<^verbatim>\<open>services(id)\<close>, so a queue row also goes when its service goes.\<close>

definition delete_provider :: "db \<Rightarrow> int \<Rightarrow> db" where
  "delete_provider s provider_id =
     (if provider_id \<notin> set (map p_id (providers s)) then s
      else
        let dead = map s_id (filter (\<lambda>r. s_provider_id r = provider_id) (services s))
        in s\<lparr>providers := filter (\<lambda>r. p_id r \<noteq> provider_id) (providers s),
             services := filter (\<lambda>r. s_provider_id r \<noteq> provider_id) (services s),
             queues := filter (\<lambda>r. q_provider_id r \<noteq> provider_id \<and> q_service_id r \<notin> set dead)
                         (queues s),
             busy_times := filter (\<lambda>r. b_provider_id r \<noteq> provider_id) (busy_times s)\<rparr>)"

subsection \<open>Queue store\<close>

text \<open>The \<^verbatim>\<open>INSERT INTO queues\<close> of \<^verbatim>\<open>add_to_queue\<close>, with its two foreign keys.\<close>

definition insert_queue ::
  "db \<Rightarrow> int \<Rightarrow> int \<Rightarrow> int \<Rightarrow> int \<Rightarrow> string option \<Rightarrow> string option \<Rightarrow> error + db" where
  "insert_queue s provider_id user_id service_id pos d t =
     (if provider_id \<notin> set (map p_id (providers s))
         \<or> service_id \<notin> set (map s_id (services s))
      then Inl IntegrityError
      else Inr (s\<lparr>queues := queues s @
                  [\<lparr>q_id = seq_queues s + 1, q_provider_id = provider_id, q_user_id = user_id,
                    q_service_id = service_id, q_position = pos, q_date = d, q_time = t\<rparr>],
                 seq_queues := seq_queues s + 1\<rparr>))"

text \<open>Python truth of an \<^verbatim>\<open>Optional[str]\<close>: \<^verbatim>\<open>None\<close> and the empty string are false.\<close>

definition truthy :: "string option \<Rightarrow> bool" where
  "truthy x = (case x of None \<Rightarrow> False | Some v \<Rightarrow> v \<noteq> [])"

text \<open>\<^verbatim>\<open>SELECT COALESCE(MAX(position),0) FROM queues WHERE provider_id=? AND position>0\<close>.\<close>

definition max_position :: "db \<Rightarrow> int \<Rightarrow> int" where
  "max_position s provider_id =
     fold max (map q_position
       (filter (\<lambda>r. q_provider_id r = provider_id \<and> q_position r > 0) (queues s))) 0"

definition add_to_queue ::
  "db \<Rightarrow> int \<Rightarrow> int \<Rightarrow> int \<Rightarrow> string option \<Rightarrow> string option \<Rightarrow> error + (int \<times> db)" where
  "add_to_queue s provider_id user_id service_id d t =
     (if truthy d \<and> truthy t then
        (case insert_queue s provider_id user_id service_id 0 d t of
           Inl e \<Rightarrow> Inl e
         | Inr s' \<Rightarrow> Inr (0, s'))
      else
        let next_pos = max_position s provider_id + 1 in
        (case insert_queue s provider_id user_id service_id next_pos None None of
           Inl e \<Rightarrow> Inl e
         | Inr s' \<Rightarrow> Inr (next_pos, s')))"

text \<open>
  \<^verbatim>\<open>pop_next_in_queue\<close>. \<^verbatim>\<open>ORDER BY ... LIMIT 1\<close> is the head of the sorted selection.
  SQLite compares TEXT bytewise and puts NULL before every value, which is the order of
  \<open>string option\<close>; rows with equal keys are kept in rowid order (SQLite leaves that
  order open, and no statement below depends on it). The result is \<^verbatim>\<open>None\<close>, or the
  pair or the 4-tuple the source returns.
\<close>

datatype popped =
    Walkin int int
  | Scheduled int int "string option" "string option"

definition pop_next_in_queue :: "db \<Rightarrow> int \<Rightarrow> bool \<Rightarrow> popped option \<times> db" where
  "pop_next_in_queue s provider_id include_scheduled =
     (let row =
        (if include_scheduled then
           fetchone (sort_key (\<lambda>r. (q_date r, q_time r))
             (filter (\<lambda>r. q_provider_id r = provider_id) (queues s)))
         else
           fetchone (sort_key q_position
             (filter (\<lambda>r. q_provider_id r = provider_id \<and> q_position r > 0) (queues s))))
      in case row of
           Some r \<Rightarrow>
             (Some (if include_scheduled
                    then Scheduled (q_user_id r) (q_service_id r) (q_date r) (q_time r)
                    else Walkin (q_user_id r) (q_service_id r)),
              s\<lparr>queues := filter (\<lambda>x. q_id x \<noteq> q_id r) (queues s)\<rparr>)
         | None \<Rightarrow> (None, s))"

text \<open>\<^verbatim>\<open>get_queue\<close>: the walk-in line, joined with the service names.\<close>

definition get_queue :: "db \<Rightarrow> int \<Rightarrow> (int \<times> int \<times> string) list" where
  "get_queue s provider_id =
     concat (map (\<lambda>q. map (\<lambda>sv. (q_position q, q_user_id q, s_name sv))
                         (filter (\<lambda>sv. s_id sv = q_service_id q) (services s)))
       (sort_key q_position
          (filter (\<lambda>r. q_provider_id r = provider_id \<and> q_position r > 0) (queues s))))"

subsection \<open>Busy blocks and booked slots\<close>

definition add_busy_time :: "db \<Rightarrow> int \<Rightarrow> string \<Rightarrow> string \<Rightarrow> error + (int \<times> db)" where
  "add_busy_time s provider_id d t =
     (if provider_id \<notin> set (map p_id (providers s)) then Inl IntegrityError
      else Inr (seq_busy_times s + 1,
        s\<lparr>busy_times := busy_times s @
             [\<lparr>b_id = seq_busy_times s + 1, b_provider_id = provider_id,
               b_date = d, b_time = t\<rparr>],
          seq_busy_times := seq_busy_times s + 1\<rparr>))"

definition get_busy_times :: "db \<Rightarrow> int \<Rightarrow> (int \<times> string \<times> string) list" where
  "get_busy_times s provider_id =
     map (\<lambda>r. (b_id r, b_date r, b_time r))
       (sort_key (\<lambda>r. (b_date r, b_time r))
          (filter (\<lambda>r. b_provider_id r = provider_id) (busy_times s)))"

definition remove_busy_time :: "db \<Rightarrow> int \<Rightarrow> db" where
  "remove_busy_time s busy_id =
     s\<lparr>busy_times := filter (\<lambda>r. b_id r \<noteq> busy_id) (busy_times s)\<rparr>"

text \<open>\<^verbatim>\<open>get_booked_slots\<close> returns \<^verbatim>\<open>list(set(booked + busy))\<close>: the order of the
  result is arbitrary and its callers only test membership; the model keeps the first
  occurrence of each time.\<close>

definition get_booked_slots :: "db \<Rightarrow> int \<Rightarrow> string \<Rightarrow> string list" where
  "get_booked_slots s provider_id d =
     (let booked = concat (map (\<lambda>r. case q_time r of None \<Rightarrow> [] | Some t \<Rightarrow> [t])
            (filter (\<lambda>r. q_provider_id r = provider_id \<and> q_date r = Some d) (queues s)));
          busy = map b_time
            (filter (\<lambda>r. b_provider_id r = provider_id \<and> b_date r = d) (busy_times s))
      in remdups (booked @ busy))"

subsection \<open>Availability\<close>

text \<open>Python's \<^verbatim>\<open>f"{h:02d}"\<close> for a natural number: its decimal digits, padded with
  zeros on the left to width 2.\<close>

fun dec :: "nat \<Rightarrow> string" where
  "dec n = (if n < 10 then [char_of (48 + n)] else dec (n div 10) @ [char_of (48 + n mod 10)])"

definition fmt02d :: "nat \<Rightarrow> string" where
  "fmt02d n = replicate (2 - length (dec n)) (CHR ''0'') @ dec n"

text \<open>The grid of \<^verbatim>\<open>client_pick_date\<close>: for \<^verbatim>\<open>h in range(9, 18)\<close> the marks
  \<^verbatim>\<open>hh:00\<close> and \<^verbatim>\<open>hh:30\<close>, then \<^verbatim>\<open>slots[:-1]\<close>.\<close>

definition slots :: "string list" where
  "slots = butlast (concat (map (\<lambda>h. [fmt02d h @ '':00'', fmt02d h @ '':30'']) [9..<18]))"

text \<open>The local \<^verbatim>\<open>available\<close> of \<^verbatim>\<open>client_pick_date\<close>.\<close>

definition available :: "db \<Rightarrow> int \<Rightarrow> string \<Rightarrow> string list" where
  "available s provider_id sel_date =
     (let blocked = get_booked_slots s provider_id sel_date
      in filter (\<lambda>x. x \<notin> set blocked) slots)"

datatype pick_date_reply = NoFreeSlots | SlotButtons "string list"

text \<open>The handlers are modelled from their parsed callback payload on: a payload that
  does not parse is answered with an alert and touches nothing.\<close>

definition client_pick_date :: "db \<Rightarrow> int \<Rightarrow> int \<Rightarrow> string \<Rightarrow> pick_date_reply" where
  "client_pick_date s provider_id svc_id sel_date =
     (if available s provider_id sel_date = [] then NoFreeSlots
      else SlotButtons (available s provider_id sel_date))"

subsection \<open>Handlers on the store\<close>

text \<open>\<^verbatim>\<open>SELECT name FROM services WHERE id=?\<close> with the handler's default.\<close>

definition service_name :: "db \<Rightarrow> int \<Rightarrow> string \<Rightarrow> string" where
  "service_name s svc_id dflt =
     (case fetchone (filter (\<lambda>r. s_id r = svc_id) (services s)) of
        Some r \<Rightarrow> s_name r
      | None \<Rightarrow> dflt)"

text \<open>\<^verbatim>\<open>client_book_slot\<close>: the slot is checked against \<^verbatim>\<open>get_booked_slots\<close> again,
  then the entry is inserted; the check and the insert run without an \<^verbatim>\<open>await\<close> in
  between. \<open>Booked\<close> carries the owner that is notified and the service name shown.\<close>

datatype book_reply =
    SlotConflict
  | Booked "int option" string
  | BookRaised error

definition client_book_slot ::
  "db \<Rightarrow> int \<Rightarrow> int \<Rightarrow> string \<Rightarrow> string \<Rightarrow> int \<Rightarrow> book_reply \<times> db" where
  "client_book_slot s provider_id svc_id sel_date sel_time from_user =
     (let blocked = get_booked_slots s provider_id sel_date in
      if sel_time \<in> set blocked then (SlotConflict, s)
      else
        (case add_to_queue s provider_id from_user svc_id (Some sel_date) (Some sel_time) of
           Inl e \<Rightarrow> (BookRaised e, s)
         | Inr (pos, s') \<Rightarrow>
             (Booked (get_provider_owner s' provider_id) (service_name s' svc_id ''Xizmat''), s')))"

text \<open>\<^verbatim>\<open>call_next\<close>: first the walk-in line, then the scheduled entries. The reply
  carries what the handler sends: the client that is notified, the service and, for a
  scheduled entry, its date and time. A notification that fails is swallowed
  (\<^verbatim>\<open>except Exception: pass\<close>) and changes nothing.\<close>

datatype call_reply =
    NotRegistered
  | EmptyQueue
  | CalledWalkin int int string
  | CalledScheduled int int string "string option" "string option"
  | CallRaised error

definition call_next :: "db \<Rightarrow> int \<Rightarrow> call_reply \<times> db" where
  "call_next s from_user =
     (case get_provider_by_owner s from_user of
        None \<Rightarrow> (NotRegistered, s)
      | Some (pid, name, ref) \<Rightarrow>
          (case pop_next_in_queue s pid False of
             (None, s1) \<Rightarrow>
               (case pop_next_in_queue s1 pid True of
                  (None, s2) \<Rightarrow> (EmptyQueue, s2)
                | (Some (Scheduled user_id service_id date_val time_val), s2) \<Rightarrow>
                    (CalledScheduled user_id service_id (service_name s2 service_id ''Xizmat'')
                       date_val time_val, s2)
                | (Some (Walkin user_id service_id), s2) \<Rightarrow> (CallRaised ValueError, s2))
           | (Some (Walkin user_id service_id), s1) \<Rightarrow>
               (CalledWalkin user_id service_id (service_name s1 service_id ''Xizmat''), s1)
           | (Some (Scheduled user_id service_id date_val time_val), s1) \<Rightarrow>
               (CallRaised ValueError, s1)))"

text \<open>\<^verbatim>\<open>show_queue\<close>: the query
  \<^verbatim>\<open>SELECT ... FROM queues WHERE provider_id=? ORDER BY position ASC, date, time ASC\<close>
  and one line per row. The display name of a client comes from Telegram and is not
  modelled; a line keeps the client's id. The source's text for a service that is not
  found is not ASCII and is written \<open>''?''\<close> here; the foreign key on \<^verbatim>\<open>service_id\<close>
  keeps it from being shown.\<close>

definition queue_rows :: "db \<Rightarrow> int \<Rightarrow> queue_row list" where
  "queue_rows s provider_id =
     sort_key (\<lambda>r. (q_position r, q_date r, q_time r))
       (filter (\<lambda>r. q_provider_id r = provider_id) (queues s))"

datatype queue_line =
    WalkinLine int int string
  | ScheduledLine "string option" "string option" int string

definition queue_line :: "db \<Rightarrow> queue_row \<Rightarrow> queue_line" where
  "queue_line s r =
     (if q_position r > 0
      then WalkinLine (q_position r) (q_user_id r) (service_name s (q_service_id r) ''?'')
      else ScheduledLine (q_date r) (q_time r) (q_user_id r)
             (service_name s (q_service_id r) ''?''))"

datatype show_reply = ShowNotRegistered | ShowEmpty | ShowLines "queue_line list"

definition show_queue :: "db \<Rightarrow> int \<Rightarrow> show_reply" where
  "show_queue s from_user =
     (case get_provider_by_owner s from_user of
        None \<Rightarrow> ShowNotRegistered
      | Some (provider_id, provider_name, ref) \<Rightarrow>
          (if queue_rows s provider_id = [] then ShowEmpty
           else ShowLines (map (queue_line s) (queue_rows s provider_id))))"

definition clear_queue :: "db \<Rightarrow> int \<Rightarrow> bool \<times> db" where
  "clear_queue s from_user =
     (case get_provider_by_owner s from_user of
        None \<Rightarrow> (False, s)
      | Some (pid, name, ref) \<Rightarrow>
          (True, s\<lparr>queues := filter (\<lambda>r. q_provider_id r \<noteq> pid) (queues s)\<rparr>))"

definition unregister :: "db \<Rightarrow> int \<Rightarrow> bool \<times> db" where
  "unregister s from_user =
     (case get_provider_by_owner s from_user of
        None \<Rightarrow> (False, s)
      | Some (pid, name, ref) \<Rightarrow> (True, delete_provider s pid))"

text \<open>\<^verbatim>\<open>admin_delete_busy\<close> with the payload \<^verbatim>\<open>delbusy:{busy_id}:{pid}\<close>: the caller
  must own provider \<^verbatim>\<open>pid\<close>; then \<^verbatim>\<open>remove_busy_time(busy_id)\<close> runs.\<close>

datatype delete_busy_reply = NoPermission | Deleted

definition admin_delete_busy :: "db \<Rightarrow> int \<Rightarrow> int \<Rightarrow> int \<Rightarrow> delete_busy_reply \<times> db" where
  "admin_delete_busy s busy_id pid from_user =
     (let owner = get_provider_owner s pid in
      if owner \<noteq> Some from_user then (NoPermission, s)
      else (Deleted, remove_busy_time s busy_id))"

subsection \<open>Registration dialogue\<close>

text \<open>
  Registration takes two messages. \<^verbatim>\<open>register_start\<close> answers the registration button:
  it refuses a caller who already owns a provider and otherwise puts the conversation
  into the state \<^verbatim>\<open>RegisterProvider.name\<close>. \<^verbatim>\<open>register_finish\<close> handles the next
  message of a conversation in that state. The conversation state lives in the
  dispatcher's \<^verbatim>\<open>MemoryStorage\<close>, one slot per (chat, user); the slot is a parameter of
  the model. The text passed to \<^verbatim>\<open>register_finish\<close> is the message text after
  \<^verbatim>\<open>strip()\<close>.
\<close>

datatype fsm_state = RegisterProvider_name | AddService_name | BusyTimeStates_date | BusyTimeStates_time

type_synonym fsm = "int \<times> int \<Rightarrow> fsm_state option"

datatype register_reply =
    AlreadyRegistered
  | AskName
  | EmptyName
  | Registered string
  | RegisterRaised error

definition register_start :: "db \<Rightarrow> fsm \<Rightarrow> int \<Rightarrow> int \<Rightarrow> register_reply \<times> fsm" where
  "register_start s st chat_id from_user =
     (if get_provider_by_owner s from_user \<noteq> None then (AlreadyRegistered, st)
      else (AskName, st((chat_id, from_user) \<mapsto> RegisterProvider_name)))"

definition register_finish ::
  "db \<Rightarrow> fsm \<Rightarrow> int \<Rightarrow> int \<Rightarrow> string \<Rightarrow> string \<Rightarrow> register_reply \<times> db \<times> fsm" where
  "register_finish s st chat_id from_user name fresh_ref =
     (if name = [] then (EmptyName, s, st)
      else
        (case create_provider s from_user name fresh_ref of
           Inl e \<Rightarrow> (RegisterRaised e, s, st)
         | Inr (ref, s') \<Rightarrow> (Registered ref, s', st((chat_id, from_user) := None))))"

section \<open>Runs of the store and the properties stated about it\<close>

text \<open>
  Every statement of the program that writes to the database is one of the following
  operations. A run starts from the empty database (the tables are created empty); an
  operation that raises leaves the database as it was.
\<close>

datatype op =
    CreateProvider int string string
  | AddService int string
  | AddToQueue int int int "string option" "string option"
  | PopNext int bool
  | ClearQueue int
  | DeleteProvider int
  | AddBusyTime int string string
  | RemoveBusyTime int

fun apply_op :: "db \<Rightarrow> op \<Rightarrow> db" where
  "apply_op s (CreateProvider owner_id name ref_code) =
     (case create_provider s owner_id name ref_code of Inl e \<Rightarrow> s | Inr (ref, s') \<Rightarrow> s')"
| "apply_op s (AddService provider_id name) = snd (add_service s provider_id name)"
| "apply_op s (AddToQueue provider_id user_id service_id d t) =
     (case add_to_queue s provider_id user_id service_id d t of
        Inl e \<Rightarrow> s | Inr (pos, s') \<Rightarrow> s')"
| "apply_op s (PopNext provider_id include_scheduled) =
     snd (pop_next_in_queue s provider_id include_scheduled)"
| "apply_op s (ClearQueue from_user) = snd (clear_queue s from_user)"
| "apply_op s (DeleteProvider provider_id) = delete_provider s provider_id"
| "apply_op s (AddBusyTime provider_id d t) =
     (case add_busy_time s provider_id d t of Inl e \<Rightarrow> s | Inr (busy_id, s') \<Rightarrow> s')"
| "apply_op s (RemoveBusyTime busy_id) = remove_busy_time s busy_id"

definition run :: "op list \<Rightarrow> db" where
  "run ops = foldl apply_op empty_db ops"

text \<open>The two shapes of a queue entry.\<close>

definition walk_in_shape :: "queue_row \<Rightarrow> bool" where
  "walk_in_shape r = (0 < q_position r \<and> q_date r = None \<and> q_time r = None)"

definition scheduled_shape :: "queue_row \<Rightarrow> bool" where
  "scheduled_shape r = (q_position r = 0 \<and> q_date r \<noteq> None \<and> q_time r \<noteq> None)"

definition well_shaped :: "db \<Rightarrow> bool" where
  "well_shaped s = (\<forall>r\<in>set (queues s). walk_in_shape r \<noteq> scheduled_shape r)"

text \<open>Every queue entry refers to a service of its own provider, as the dialogue
  \<^verbatim>\<open>client_pick_service\<close>, \<^verbatim>\<open>client_pick_date\<close> builds its payloads.\<close>

definition own_services :: "db \<Rightarrow> bool" where
  "own_services s =
     (\<forall>r\<in>set (queues s). \<forall>sv\<in>set (services s).
        s_id sv = q_service_id r \<longrightarrow> s_provider_id sv = q_provider_id r)"

text \<open>The primary key of \<^verbatim>\<open>queues\<close>: ids are pairwise different and none exceeds the
  table's sequence.\<close>

definition ids_ok :: "db \<Rightarrow> bool" where
  "ids_ok s = (distinct (map q_id (queues s)) \<and> (\<forall>r\<in>set (queues s). q_id r \<le> seq_queues s))"

text \<open>The walk-in line of a provider: rows with \<^verbatim>\<open>position > 0\<close>.\<close>

definition walk_ins :: "db \<Rightarrow> int \<Rightarrow> queue_row list" where
  "walk_ins s provider_id =
     filter (\<lambda>r. q_provider_id r = provider_id \<and> 0 < q_position r) (queues s)"

text \<open>Sequences of walk-in enqueues and pops on one provider: the positions that
  \<^verbatim>\<open>add_to_queue\<close> hands out, and whether every pop leaves somebody in the line.\<close>

datatype qop = Enqueue int int | Pop

fun positions :: "db \<Rightarrow> int \<Rightarrow> qop list \<Rightarrow> int list" where
  "positions s p [] = []"
| "positions s p (Enqueue user_id service_id # ops) =
     (case add_to_queue s p user_id service_id None None of
        Inl e \<Rightarrow> positions s p ops
      | Inr (pos, s') \<Rightarrow> pos # positions s' p ops)"
| "positions s p (Pop # ops) = positions (snd (pop_next_in_queue s p False)) p ops"

fun line_kept :: "db \<Rightarrow> int \<Rightarrow> qop list \<Rightarrow> bool" where
  "line_kept s p [] = True"
| "line_kept s p (Enqueue user_id service_id # ops) =
     (case add_to_queue s p user_id service_id None None of
        Inl e \<Rightarrow> line_kept s p ops
      | Inr (pos, s') \<Rightarrow> line_kept s' p ops)"
| "line_kept s p (Pop # ops) =
     (walk_ins (snd (pop_next_in_queue s p False)) p \<noteq> []
      \<and> line_kept (snd (pop_next_in_queue s p False)) p ops)"

subsection \<open>Example runs\<close>

text \<open>Two providers (owners 7 and 8) with one service each.\<close>

definition two_salons :: "op list" where
  "two_salons =
     [CreateProvider 7 ''Salon A'' ''aaaa1111'', CreateProvider 8 ''Salon B'' ''bbbb2222'',
      AddService 1 ''Haircut'', AddService 2 ''Shave'']"

text \<open>Provider 1 with two walk-ins and two scheduled entries.\<close>

definition mixed_queue :: db where
  "mixed_queue = run (two_salons @
     [AddToQueue 1 100 1 None None, AddToQueue 1 101 1 None None,
      AddToQueue 1 102 1 (Some ''2025-08-20'') (Some ''09:00''),
      AddToQueue 1 103 1 (Some ''2025-08-19'') (Some ''16:30'')])"

text \<open>Provider 1 with scheduled entries only.\<close>

definition scheduled_only :: db where
  "scheduled_only = run (two_salons @
     [AddToQueue 1 102 1 (Some ''2025-08-20'') (Some ''09:00''),
      AddToQueue 1 103 1 (Some ''2025-08-19'') (Some ''16:30'')])"

text \<open>Provider 1 with one walk-in.\<close>

definition one_walk_in :: db where
  "one_walk_in = run (two_salons @ [AddToQueue 1 100 1 None None])"

text \<open>Client 100 books service 1 of provider 1 on 2025-08-25 at 10:00.\<close>

definition first_booking :: db where
  "first_booking = snd (client_book_slot (run two_salons) 1 1 ''2025-08-25'' ''10:00'' 100)"

text \<open>Client 100 books with the payload \<^verbatim>\<open>book:2:1:2025-08-25:10:00\<close>: provider 2, but
  service 1, which belongs to provider 1.\<close>

definition cross_booking :: db where
  "cross_booking = snd (client_book_slot (run two_salons) 2 1 ''2025-08-25'' ''10:00'' 100)"

text \<open>Provider 2 blocks 2025-08-25 10:00; the block gets id 1.\<close>

definition busy_salon_b :: db where
  "busy_salon_b = run (two_salons @ [AddBusyTime 2 ''2025-08-25'' ''10:00''])"

text \<open>The row of that block.\<close>

definition block_of_b :: busy_row where
  "block_of_b = \<lparr>b_id = 1, b_provider_id = 2, b_date = ''2025-08-25'', b_time = ''10:00''\<rparr>"

text \<open>One owner (user 7) starts the registration dialogue in two chats (1 and 2) before
  finishing it in either, then sends a name in each.\<close>

definition no_dialogue :: fsm where
  "no_dialogue = (\<lambda>k. None)"

definition after_two_starts :: fsm where
  "after_two_starts =
     snd (register_start empty_db (snd (register_start empty_db no_dialogue 1 7)) 2 7)"

definition after_first_finish :: "register_reply \<times> db \<times> fsm" where
  "after_first_finish = register_finish empty_db after_two_starts 1 7 ''Salon A'' ''aaaa1111''"

definition after_second_finish :: "register_reply \<times> db \<times> fsm" where
  "after_second_finish =
     register_finish (fst (snd after_first_finish)) (snd (snd after_first_finish))
       2 7 ''Salon A again'' ''cccc3333''"

section \<open>Auxiliary facts\<close>

subsection \<open>Queries\<close>

lemma fetchone_None_iff: "fetchone xs = None \<longleftrightarrow> xs = []"
  by (cases xs) (simp_all add: fetchone_def)

lemma fetchone_Some_hd: "fetchone xs = Some r \<Longrightarrow> \<exists>ys. xs = r # ys"
  by (cases xs) (simp_all add: fetchone_def)

lemma fetchone_sort_key_min:
  assumes "fetchone (sort_key f xs) = Some r"
  shows "r \<in> set xs \<and> (\<forall>x\<in>set xs. f r \<le> f x)"
proof -
  from fetchone_Some_hd [OF assms] obtain ys where ys: "sort_key f xs = r # ys" ..
  have seteq: "set xs = set (r # ys)"
    unfolding ys [symmetric] by (rule set_sort [symmetric])
  have "sorted (map f (r # ys))"
    unfolding ys [symmetric] by (rule sorted_sort_key)
  then have "\<forall>x\<in>set (r # ys). f r \<le> f x"
    by simp
  then show ?thesis
    unfolding seteq by simp
qed

lemma fetchone_sort_key_None: "fetchone (sort_key f xs) = None \<longleftrightarrow> xs = []"
  by (metis fetchone_None_iff set_sort set_empty)

lemma filter_id_eq:
  assumes "distinct (map q_id xs)" and "r \<in> set xs"
  shows "filter (\<lambda>x. q_id x \<noteq> q_id r) xs = filter (\<lambda>x. x \<noteq> r) xs"
proof (rule filter_cong [OF refl])
  fix x assume "x \<in> set xs"
  with assms show "(q_id x \<noteq> q_id r) = (x \<noteq> r)"
    using inj_on_eq_iff [of q_id "set xs" x r] by (simp add: distinct_map)
qed

lemma service_name_queues: "service_name (s\<lparr>queues := qs\<rparr>) svc_id dflt = service_name s svc_id dflt"
  by (simp add: service_name_def)

subsection \<open>What \<open>pop_next_in_queue\<close> selects\<close>

lemma pop_walkin_found:
  assumes "\<exists>r\<in>set (queues s). q_provider_id r = p \<and> 0 < q_position r"
  shows "\<exists>r\<in>set (queues s). q_provider_id r = p \<and> 0 < q_position r
           \<and> (\<forall>x\<in>set (queues s). q_provider_id x = p \<and> 0 < q_position x
                 \<longrightarrow> q_position r \<le> q_position x)
           \<and> pop_next_in_queue s p False =
               (Some (Walkin (q_user_id r) (q_service_id r)),
                s\<lparr>queues := filter (\<lambda>x. q_id x \<noteq> q_id r) (queues s)\<rparr>)"
proof -
  let ?sel = "filter (\<lambda>r. q_provider_id r = p \<and> 0 < q_position r) (queues s)"
  from assms have "?sel \<noteq> []"
    by (auto simp: filter_empty_conv)
  then have "fetchone (sort_key q_position ?sel) \<noteq> None"
    by (simp add: fetchone_sort_key_None)
  then obtain r where r: "fetchone (sort_key q_position ?sel) = Some r"
    by auto
  from fetchone_sort_key_min [OF r]
  have rin: "r \<in> set (queues s)" "q_provider_id r = p" "0 < q_position r"
    and rmin: "\<forall>x\<in>set (queues s). q_provider_id x = p \<and> 0 < q_position x
                  \<longrightarrow> q_position r \<le> q_position x"
    by simp_all
  have pop: "pop_next_in_queue s p False =
               (Some (Walkin (q_user_id r) (q_service_id r)),
                s\<lparr>queues := filter (\<lambda>x. q_id x \<noteq> q_id r) (queues s)\<rparr>)"
    using r by (simp add: pop_next_in_queue_def)
  from rin rmin pop show ?thesis
    by blast
qed

lemma pop_walkin_none:
  assumes "\<not> (\<exists>r\<in>set (queues s). q_provider_id r = p \<and> 0 < q_position r)"
  shows "pop_next_in_queue s p False = (None, s)"
proof -
  have "filter (\<lambda>r. q_provider_id r = p \<and> 0 < q_position r) (queues s) = []"
    using assms by (auto simp: filter_empty_conv)
  then show ?thesis
    by (simp add: pop_next_in_queue_def fetchone_def)
qed

lemma pop_scheduled_found:
  assumes "\<exists>r\<in>set (queues s). q_provider_id r = p"
  shows "\<exists>r\<in>set (queues s). q_provider_id r = p
           \<and> (\<forall>x\<in>set (queues s). q_provider_id x = p
                 \<longrightarrow> (q_date r, q_time r) \<le> (q_date x, q_time x))
           \<and> pop_next_in_queue s p True =
               (Some (Scheduled (q_user_id r) (q_service_id r) (q_date r) (q_time r)),
                s\<lparr>queues := filter (\<lambda>x. q_id x \<noteq> q_id r) (queues s)\<rparr>)"
proof -
  let ?sel = "filter (\<lambda>r. q_provider_id r = p) (queues s)"
  let ?key = "\<lambda>r. (q_date r, q_time r)"
  from assms have "?sel \<noteq> []"
    by (auto simp: filter_empty_conv)
  then have "fetchone (sort_key ?key ?sel) \<noteq> None"
    by (simp add: fetchone_sort_key_None)
  then obtain r where r: "fetchone (sort_key ?key ?sel) = Some r"
    by auto
  from fetchone_sort_key_min [OF r]
  have rin: "r \<in> set (queues s)" "q_provider_id r = p"
    and rmin: "\<forall>x\<in>set (queues s). q_provider_id x = p \<longrightarrow> ?key r \<le> ?key x"
    by simp_all
  have pop: "pop_next_in_queue s p True =
               (Some (Scheduled (q_user_id r) (q_service_id r) (q_date r) (q_time r)),
                s\<lparr>queues := filter (\<lambda>x. q_id x \<noteq> q_id r) (queues s)\<rparr>)"
    using r by (simp add: pop_next_in_queue_def)
  from rin rmin pop show ?thesis
    by blast
qed

lemma pop_scheduled_none:
  assumes "\<not> (\<exists>r\<in>set (queues s). q_provider_id r = p)"
  shows "pop_next_in_queue s p True = (None, s)"
proof -
  have "filter (\<lambda>r. q_provider_id r = p) (queues s) = []"
    using assms by (auto simp: filter_empty_conv)
  then show ?thesis
    by (simp add: pop_next_in_queue_def fetchone_def)
qed

subsection \<open>Providers\<close>

lemma owner_provider_exists:
  assumes "get_provider_by_owner s from_user = Some (pid, name, ref)"
  shows "pid \<in> set (map p_id (providers s))"
proof -
  from assms obtain r where
    r: "fetchone (filter (\<lambda>r. p_owner_id r = from_user) (providers s)) = Some r"
    and pid: "p_id r = pid"
    by (auto simp: get_provider_by_owner_def)
  from fetchone_Some_hd [OF r] obtain ys where
    "filter (\<lambda>r. p_owner_id r = from_user) (providers s) = r # ys" ..
  then have "r \<in> set (filter (\<lambda>r. p_owner_id r = from_user) (providers s))"
    by simp
  then have "r \<in> set (providers s)"
    by simp
  with pid show ?thesis
    by auto
qed

lemma delete_provider_fields:
  assumes "pid \<in> set (map p_id (providers s))"
  shows "providers (delete_provider s pid) = filter (\<lambda>r. p_id r \<noteq> pid) (providers s)"
    and "services (delete_provider s pid) = filter (\<lambda>r. s_provider_id r \<noteq> pid) (services s)"
    and "queues (delete_provider s pid) =
           filter (\<lambda>r. q_provider_id r \<noteq> pid
                      \<and> q_service_id r \<notin> s_id ` {x \<in> set (services s). s_provider_id x = pid})
             (queues s)"
    and "busy_times (delete_provider s pid) = filter (\<lambda>r. b_provider_id r \<noteq> pid) (busy_times s)"
  using assms by (simp_all add: delete_provider_def Let_def)

subsection \<open>Booked slots\<close>

lemma booked_slots_iff:
  "t \<in> set (get_booked_slots s p d) \<longleftrightarrow>
     (\<exists>r\<in>set (queues s). q_provider_id r = p \<and> q_date r = Some d \<and> q_time r = Some t)
   \<or> (\<exists>b\<in>set (busy_times s). b_provider_id b = p \<and> b_date b = d \<and> b_time b = t)"
proof -
  have "t \<in> set (concat (map (\<lambda>r. case q_time r of None \<Rightarrow> [] | Some t \<Rightarrow> [t])
            (filter (\<lambda>r. q_provider_id r = p \<and> q_date r = Some d) (queues s))))
        \<longleftrightarrow> (\<exists>r\<in>set (queues s). q_provider_id r = p \<and> q_date r = Some d \<and> q_time r = Some t)"
    by (auto split: option.splits)
  moreover have "t \<in> set (map b_time
            (filter (\<lambda>r. b_provider_id r = p \<and> b_date r = d) (busy_times s)))
        \<longleftrightarrow> (\<exists>b\<in>set (busy_times s). b_provider_id b = p \<and> b_date b = d \<and> b_time b = t)"
    by auto
  ultimately show ?thesis
    unfolding get_booked_slots_def Let_def set_remdups set_append Un_iff by (rule arg_cong2)
qed

subsection \<open>Inserting into the queue\<close>

lemma insert_queue_fields:
  assumes "insert_queue s p u svc pos d t = Inr s'"
  shows "queues s' = queues s @
           [\<lparr>q_id = seq_queues s + 1, q_provider_id = p, q_user_id = u,
             q_service_id = svc, q_position = pos, q_date = d, q_time = t\<rparr>]"
    and "seq_queues s' = seq_queues s + 1"
    and "busy_times s' = busy_times s"
    and "providers s' = providers s"
    and "services s' = services s"
  using assms by (auto simp: insert_queue_def split: if_splits)

lemma max_position_Max:
  "max_position s p = Max (insert 0 (q_position ` set (walk_ins s p)))"
  using Max.set_eq_fold [of 0 "map q_position (walk_ins s p)"]
  by (simp add: max_position_def walk_ins_def)

lemma max_position_nonneg: "0 \<le> max_position s p"
  unfolding max_position_Max by (rule Max_ge) simp_all

lemma max_position_ge:
  assumes "r \<in> set (walk_ins s p)"
  shows "q_position r \<le> max_position s p"
  unfolding max_position_Max using assms by (intro Max_ge) simp_all

lemma add_to_queue_cases:
  assumes "add_to_queue s p u svc d t = Inr (pos, s')"
  shows "(truthy d \<and> truthy t \<and> pos = 0 \<and> insert_queue s p u svc 0 d t = Inr s')
       \<or> (\<not> (truthy d \<and> truthy t) \<and> pos = max_position s p + 1
            \<and> insert_queue s p u svc pos None None = Inr s')"
  using assms by (auto simp: add_to_queue_def Let_def split: if_splits sum.splits)

lemma truthy_Some: "truthy (Some v) \<longleftrightarrow> v \<noteq> []"
  by (simp add: truthy_def)

lemma truthy_not_None: "truthy x \<Longrightarrow> x \<noteq> None"
  by (cases x) (simp_all add: truthy_def)

lemma slots_list:
  "slots = [''09:00'', ''09:30'', ''10:00'', ''10:30'', ''11:00'', ''11:30'', ''12:00'',
            ''12:30'', ''13:00'', ''13:30'', ''14:00'', ''14:30'', ''15:00'', ''15:30'',
            ''16:00'', ''16:30'', ''17:00'']"
  by code_simp

lemma slots_nonempty_strings: "t \<in> set slots \<Longrightarrow> t \<noteq> []"
  unfolding slots_list by auto

subsection \<open>What an operation does to the queue table\<close>

lemma add_to_queue_row:
  assumes "add_to_queue s p u svc d t = Inr (pos, s')"
  shows "\<exists>r. queues s' = queues s @ [r] \<and> q_id r = seq_queues s + 1
             \<and> seq_queues s' = seq_queues s + 1
             \<and> q_provider_id r = p \<and> q_position r = pos
             \<and> (if truthy d \<and> truthy t
                 then scheduled_shape r \<and> \<not> walk_in_shape r \<and> pos = 0
                      \<and> q_date r = d \<and> q_time r = t
                 else walk_in_shape r \<and> \<not> scheduled_shape r \<and> pos = 1 + max_position s p)"
proof (cases "truthy d \<and> truthy t")
  case True
  with add_to_queue_cases [OF assms] have pos: "pos = 0"
    and ins: "insert_queue s p u svc 0 d t = Inr s'"
    by blast+
  let ?r = "\<lparr>q_id = seq_queues s + 1, q_provider_id = p, q_user_id = u,
             q_service_id = svc, q_position = 0, q_date = d, q_time = t\<rparr>"
  from True have "d \<noteq> None" "t \<noteq> None"
    by (simp_all add: truthy_not_None)
  then have "scheduled_shape ?r \<and> \<not> walk_in_shape ?r"
    by (simp add: scheduled_shape_def walk_in_shape_def)
  with True pos insert_queue_fields(1,2) [OF ins] show ?thesis
    by (intro exI [of _ ?r]) simp
next
  case False
  with add_to_queue_cases [OF assms] have pos: "pos = max_position s p + 1"
    and ins: "insert_queue s p u svc pos None None = Inr s'"
    by blast+
  let ?r = "\<lparr>q_id = seq_queues s + 1, q_provider_id = p, q_user_id = u,
             q_service_id = svc, q_position = pos, q_date = None, q_time = None\<rparr>"
  from pos max_position_nonneg [of s p] have "0 < pos"
    by simp
  then have "walk_in_shape ?r \<and> \<not> scheduled_shape ?r"
    by (simp add: scheduled_shape_def walk_in_shape_def)
  with False pos insert_queue_fields(1,2) [OF ins] show ?thesis
    by (intro exI [of _ ?r]) simp
qed

lemma pop_next_in_queue_effect:
  "\<exists>P. queues (snd (pop_next_in_queue s p incl)) = filter P (queues s)
       \<and> seq_queues (snd (pop_next_in_queue s p incl)) = seq_queues s"
proof (cases "fst (pop_next_in_queue s p incl)")
  case None
  then have "snd (pop_next_in_queue s p incl) = s"
    by (auto simp: pop_next_in_queue_def Let_def split: option.splits if_splits)
  then show ?thesis
    by (intro exI [of _ "\<lambda>r. True"]) simp
next
  case (Some a)
  then have "\<exists>r::queue_row. snd (pop_next_in_queue s p incl)
                 = s\<lparr>queues := filter (\<lambda>x. q_id x \<noteq> q_id r) (queues s)\<rparr>"
    by (auto simp: pop_next_in_queue_def Let_def split: option.splits if_splits)
  then obtain r :: queue_row where
    "snd (pop_next_in_queue s p incl) = s\<lparr>queues := filter (\<lambda>x. q_id x \<noteq> q_id r) (queues s)\<rparr>" ..
  then show ?thesis
    by (intro exI [of _ "\<lambda>x. q_id x \<noteq> q_id r"]) simp
qed

lemma apply_op_effect:
  "(\<exists>P. queues (apply_op s x) = filter P (queues s)
        \<and> seq_queues (apply_op s x) = seq_queues s)
   \<or> (\<exists>r. queues (apply_op s x) = queues s @ [r] \<and> q_id r = seq_queues s + 1
          \<and> seq_queues (apply_op s x) = seq_queues s + 1
          \<and> walk_in_shape r \<noteq> scheduled_shape r)"
proof (cases x)
  case (CreateProvider owner_id name ref_code)
  then have "queues (apply_op s x) = queues s \<and> seq_queues (apply_op s x) = seq_queues s"
    by (simp add: create_provider_def)
  then show ?thesis
    by (intro disjI1 exI [of _ "\<lambda>r. True"]) simp
next
  case (AddService provider_id name)
  then have "queues (apply_op s x) = queues s \<and> seq_queues (apply_op s x) = seq_queues s"
    by (simp add: add_service_def)
  then show ?thesis
    by (intro disjI1 exI [of _ "\<lambda>r. True"]) simp
next
  case (AddToQueue p u svc d t)
  show ?thesis
  proof (cases "add_to_queue s p u svc d t")
    case (Inl e)
    with AddToQueue have "apply_op s x = s"
      by simp
    then show ?thesis
      by (intro disjI1 exI [of _ "\<lambda>r. True"]) simp
  next
    case (Inr res)
    then obtain pos s' where res: "add_to_queue s p u svc d t = Inr (pos, s')"
      by (cases res) simp
    with AddToQueue have s': "apply_op s x = s'"
      by simp
    from add_to_queue_row [OF res] obtain r where
      "queues s' = queues s @ [r]" "q_id r = seq_queues s + 1"
      "seq_queues s' = seq_queues s + 1" "walk_in_shape r \<noteq> scheduled_shape r"
      by (auto split: if_splits)
    then show ?thesis
      unfolding s' by (intro disjI2 exI [of _ r]) simp
  qed
next
  case (PopNext p incl)
  with pop_next_in_queue_effect [of s p incl] show ?thesis
    by simp
next
  case (ClearQueue from_user)
  show ?thesis
  proof (cases "get_provider_by_owner s from_user")
    case None
    with ClearQueue have "apply_op s x = s"
      by (simp add: clear_queue_def)
    then show ?thesis
      by (intro disjI1 exI [of _ "\<lambda>r. True"]) simp
  next
    case (Some a)
    then obtain pid where
      "apply_op s x = s\<lparr>queues := filter (\<lambda>r. q_provider_id r \<noteq> pid) (queues s)\<rparr>"
      using ClearQueue by (cases a) (simp add: clear_queue_def)
    then show ?thesis
      by (intro disjI1 exI [of _ "\<lambda>r. q_provider_id r \<noteq> pid"]) simp
  qed
next
  case (DeleteProvider pid)
  show ?thesis
  proof (cases "pid \<in> set (map p_id (providers s))")
    case True
    with DeleteProvider delete_provider_fields(3) [OF True]
    have "queues (apply_op s x) =
           filter (\<lambda>r. q_provider_id r \<noteq> pid
                      \<and> q_service_id r \<notin> s_id ` {x \<in> set (services s). s_provider_id x = pid})
             (queues s)"
      and "seq_queues (apply_op s x) = seq_queues s"
      by (simp_all add: delete_provider_def Let_def)
    then show ?thesis
      by (intro disjI1 exI [of _ "\<lambda>r. q_provider_id r \<noteq> pid
                      \<and> q_service_id r \<notin> s_id ` {x \<in> set (services s). s_provider_id x = pid}"])
        simp
  next
    case False
    with DeleteProvider have "apply_op s x = s"
      by (simp add: delete_provider_def)
    then show ?thesis
      by (intro disjI1 exI [of _ "\<lambda>r. True"]) simp
  qed
next
  case (AddBusyTime p d t)
  then have "queues (apply_op s x) = queues s \<and> seq_queues (apply_op s x) = seq_queues s"
    by (simp add: add_busy_time_def)
  then show ?thesis
    by (intro disjI1 exI [of _ "\<lambda>r. True"]) simp
next
  case (RemoveBusyTime busy_id)
  then have "queues (apply_op s x) = queues s \<and> seq_queues (apply_op s x) = seq_queues s"
    by (simp add: remove_busy_time_def)
  then show ?thesis
    by (intro disjI1 exI [of _ "\<lambda>r. True"]) simp
qed

lemma ids_ok_filter:
  assumes "ids_ok s" and "queues s' = filter P (queues s)" and "seq_queues s' = seq_queues s"
  shows "ids_ok s'"
  using assms by (simp add: ids_ok_def distinct_map_filter)

lemma ids_ok_append:
  assumes "ids_ok s" and "queues s' = queues s @ [r]" and "q_id r = seq_queues s + 1"
    and "seq_queues s' = seq_queues s + 1"
  shows "ids_ok s'"
proof -
  from assms(1) have "\<forall>x\<in>set (queues s). q_id x < q_id r"
    using assms(3) by (auto simp: ids_ok_def)
  then have "q_id r \<notin> q_id ` set (queues s)"
    by auto
  with assms show ?thesis
    by (auto simp: ids_ok_def)
qed

lemma apply_op_ids_ok: "ids_ok s \<Longrightarrow> ids_ok (apply_op s x)"
  using apply_op_effect [of s x] by (blast intro: ids_ok_filter ids_ok_append)

lemma apply_op_well_shaped:
  assumes "well_shaped s"
  shows "well_shaped (apply_op s x)"
proof -
  from apply_op_effect [of s x] consider
    P where "queues (apply_op s x) = filter P (queues s)"
  | r where "queues (apply_op s x) = queues s @ [r]" "walk_in_shape r \<noteq> scheduled_shape r"
    by blast
  then show ?thesis
  proof cases
    case 1
    with assms show ?thesis
      by (simp add: well_shaped_def)
  next
    case 2
    with assms show ?thesis
      by (simp add: well_shaped_def)
  qed
qed

lemma foldl_ids_ok: "ids_ok s \<Longrightarrow> ids_ok (foldl apply_op s ops)"
  by (induction ops arbitrary: s) (simp_all add: apply_op_ids_ok)

lemma foldl_well_shaped: "well_shaped s \<Longrightarrow> well_shaped (foldl apply_op s ops)"
  by (induction ops arbitrary: s) (simp_all add: apply_op_well_shaped)

lemma run_ids_ok: "ids_ok (run ops)"
  unfolding run_def by (rule foldl_ids_ok) (simp add: ids_ok_def empty_db_def)

lemma run_well_shaped: "well_shaped (run ops)"
  unfolding run_def by (rule foldl_well_shaped) (simp add: well_shaped_def empty_db_def)

subsection \<open>The largest walk-in position under enqueue and pop\<close>

lemma add_walk_in_max:
  assumes "add_to_queue s p u svc None None = Inr (pos, s')"
  shows "pos = 1 + max_position s p"
    and "max_position s' p = pos"
    and "\<forall>r\<in>set (walk_ins s p). q_position r < pos"
    and "ids_ok s \<Longrightarrow> ids_ok s'"
proof -
  have nt: "\<not> (truthy None \<and> truthy None)"
    by (simp add: truthy_def)
  from add_to_queue_row [OF assms] nt obtain r where
    qs: "queues s' = queues s @ [r]" and rid: "q_id r = seq_queues s + 1"
    and seq: "seq_queues s' = seq_queues s + 1"
    and rp: "q_provider_id r = p" and rpos: "q_position r = pos"
    and shape: "walk_in_shape r" and pos: "pos = 1 + max_position s p"
    by auto
  show "pos = 1 + max_position s p"
    by (rule pos)
  from shape rpos have "0 < pos"
    by (simp add: walk_in_shape_def)
  with qs rp rpos have w: "walk_ins s' p = walk_ins s p @ [r]"
    by (simp add: walk_ins_def)
  have "max_position s' p = Max (insert pos (insert 0 (q_position ` set (walk_ins s p))))"
    unfolding max_position_Max w by (simp add: rpos insert_commute)
  also have "\<dots> = max pos (max_position s p)"
    unfolding max_position_Max by (rule Max_insert) simp_all
  also have "\<dots> = pos"
    using pos by simp
  finally show "max_position s' p = pos" .
  show "\<forall>r\<in>set (walk_ins s p). q_position r < pos"
    using max_position_ge [of _ s p] pos by fastforce
  show "ids_ok s'" if "ids_ok s"
    using that qs rid seq by (rule ids_ok_append)
qed

lemma pop_walk_in_ids_ok:
  assumes "ids_ok s"
  shows "ids_ok (snd (pop_next_in_queue s p incl))"
  using pop_next_in_queue_effect [of s p incl] assms by (blast intro: ids_ok_filter)

lemma pop_walk_in_keeps_max:
  assumes ids: "ids_ok s"
    and kept: "walk_ins (snd (pop_next_in_queue s p False)) p \<noteq> []"
  shows "max_position (snd (pop_next_in_queue s p False)) p = max_position s p"
proof (cases "\<exists>r\<in>set (queues s). q_provider_id r = p \<and> 0 < q_position r")
  case False
  then show ?thesis
    by (simp add: pop_walkin_none)
next
  case True
  from pop_walkin_found [OF True] obtain r where
    rin: "r \<in> set (queues s)" and rp: "q_provider_id r = p" and rpos: "0 < q_position r"
    and rmin: "\<forall>x\<in>set (queues s). q_provider_id x = p \<and> 0 < q_position x
                  \<longrightarrow> q_position r \<le> q_position x"
    and pop: "pop_next_in_queue s p False =
               (Some (Walkin (q_user_id r) (q_service_id r)),
                s\<lparr>queues := filter (\<lambda>x. q_id x \<noteq> q_id r) (queues s)\<rparr>)"
    by blast
  from ids have "distinct (map q_id (queues s))"
    by (simp add: ids_ok_def)
  from filter_id_eq [OF this rin] pop
  have s': "snd (pop_next_in_queue s p False) = s\<lparr>queues := filter (\<lambda>x. x \<noteq> r) (queues s)\<rparr>"
    by simp
  let ?W = "set (walk_ins s p)"
  let ?W' = "set (walk_ins (snd (pop_next_in_queue s p False)) p)"
  have W': "?W' = ?W - {r}"
    unfolding s' by (auto simp: walk_ins_def)
  have "r \<in> ?W"
    using rin rp rpos by (simp add: walk_ins_def)
  with W' have W: "?W = insert r ?W'"
    by auto
  from kept obtain e where e: "e \<in> ?W'"
    by (cases "walk_ins (snd (pop_next_in_queue s p False)) p") auto
  with W' rmin have "q_position r \<le> q_position e"
    by (auto simp: walk_ins_def)
  also from e have "q_position e \<le> Max (insert 0 (q_position ` ?W'))"
    by (intro Max_ge) simp_all
  finally have le: "q_position r \<le> Max (insert 0 (q_position ` ?W'))" .
  have "max_position s p = Max (insert (q_position r) (insert 0 (q_position ` ?W')))"
    unfolding max_position_Max by (subst W) (simp add: insert_commute)
  also have "\<dots> = max (q_position r) (Max (insert 0 (q_position ` ?W')))"
    by (rule Max_insert) simp_all
  also have "\<dots> = Max (insert 0 (q_position ` ?W'))"
    using le by simp
  finally show ?thesis
    unfolding max_position_Max [of "snd (pop_next_in_queue s p False)"] by simp
qed

lemma positions_increasing:
  assumes "ids_ok s" and "line_kept s p ops"
  shows "sorted_wrt (<) (positions s p ops) \<and> (\<forall>x\<in>set (positions s p ops). max_position s p < x)"
  using assms
proof (induction ops arbitrary: s)
  case Nil
  then show ?case
    by simp
next
  case (Cons x ops)
  show ?case
  proof (cases x)
    case (Enqueue u svc)
    show ?thesis
    proof (cases "add_to_queue s p u svc None None")
      case (Inl e)
      with Cons Enqueue show ?thesis
        by simp
    next
      case (Inr res)
      then obtain pos s' where add: "add_to_queue s p u svc None None = Inr (pos, s')"
        by (cases res) simp
      note facts = add_walk_in_max [OF add]
      from Cons.prems Enqueue add have "ids_ok s'" and "line_kept s' p ops"
        by (simp_all add: facts(4))
      from Cons.IH [OF this]
      have ih: "sorted_wrt (<) (positions s' p ops)" "\<forall>x\<in>set (positions s' p ops). pos < x"
        by (simp_all add: facts(2))
      have "positions s p (x # ops) = pos # positions s' p ops"
        using Enqueue add by simp
      moreover have "max_position s p < pos"
        using facts(1) by simp
      ultimately show ?thesis
        using ih by fastforce
    qed
  next
    case Pop
    let ?s' = "snd (pop_next_in_queue s p False)"
    from Cons.prems Pop have kept: "walk_ins ?s' p \<noteq> []" and rest: "line_kept ?s' p ops"
      by simp_all
    have "ids_ok ?s'"
      using Cons.prems(1) by (rule pop_walk_in_ids_ok)
    from Cons.IH [OF this rest] pop_walk_in_keeps_max [OF Cons.prems(1) kept] Pop
    show ?thesis
      by simp
  qed
qed

section \<open>Dispatch\<close>

text \<open>
  Claim C1. Whenever the caller's provider has an entry with \<open>position > 0\<close>,
  \<open>call_next\<close> dispatches a walk-in whose position is the lowest of the provider's
  walk-in line, whatever scheduled entries exist and whatever their dates are. Exactly
  that row leaves the table, so every scheduled entry (position 0) is still there
  afterwards.
\<close>

theorem call_next_prefers_walk_in:
  assumes owner: "get_provider_by_owner s from_user = Some (pid, name, ref)"
    and ids: "distinct (map q_id (queues s))"
    and line: "\<exists>r\<in>set (queues s). q_provider_id r = pid \<and> 0 < q_position r"
  shows "\<exists>r\<in>set (queues s).
           q_provider_id r = pid \<and> 0 < q_position r
         \<and> (\<forall>x\<in>set (queues s). q_provider_id x = pid \<and> 0 < q_position x
               \<longrightarrow> q_position r \<le> q_position x)
         \<and> call_next s from_user =
             (CalledWalkin (q_user_id r) (q_service_id r)
                (service_name s (q_service_id r) ''Xizmat''),
              s\<lparr>queues := filter (\<lambda>x. x \<noteq> r) (queues s)\<rparr>)
         \<and> (\<forall>x\<in>set (queues s). q_position x = 0
               \<longrightarrow> x \<in> set (queues (snd (call_next s from_user))))"
proof -
  from pop_walkin_found [OF line] obtain r where
    rin: "r \<in> set (queues s)" and rp: "q_provider_id r = pid" and rpos: "0 < q_position r"
    and rmin: "\<forall>x\<in>set (queues s). q_provider_id x = pid \<and> 0 < q_position x
                  \<longrightarrow> q_position r \<le> q_position x"
    and pop: "pop_next_in_queue s pid False =
               (Some (Walkin (q_user_id r) (q_service_id r)),
                s\<lparr>queues := filter (\<lambda>x. q_id x \<noteq> q_id r) (queues s)\<rparr>)"
    by blast
  have call: "call_next s from_user =
             (CalledWalkin (q_user_id r) (q_service_id r)
                (service_name s (q_service_id r) ''Xizmat''),
              s\<lparr>queues := filter (\<lambda>x. x \<noteq> r) (queues s)\<rparr>)"
    by (simp add: call_next_def owner pop service_name_queues filter_id_eq [OF ids rin])
  have kept: "\<forall>x\<in>set (queues s). q_position x = 0
               \<longrightarrow> x \<in> set (queues (snd (call_next s from_user)))"
    using rpos by (auto simp: call)
  from rin rp rpos rmin call kept show ?thesis
    by blast
qed

theorem call_next_prefers_walk_in_witness:
  "get_provider_by_owner mixed_queue 7 = Some (1, ''Salon A'', ''aaaa1111'')
   \<and> distinct (map q_id (queues mixed_queue))
   \<and> (\<exists>r\<in>set (queues mixed_queue). q_provider_id r = 1 \<and> 0 < q_position r)
   \<and> (\<exists>r\<in>set (queues mixed_queue).
           q_provider_id r = 1 \<and> 0 < q_position r
         \<and> (\<forall>x\<in>set (queues mixed_queue). q_provider_id x = 1 \<and> 0 < q_position x
               \<longrightarrow> q_position r \<le> q_position x)
         \<and> call_next mixed_queue 7 =
             (CalledWalkin (q_user_id r) (q_service_id r)
                (service_name mixed_queue (q_service_id r) ''Xizmat''),
              mixed_queue\<lparr>queues := filter (\<lambda>x. x \<noteq> r) (queues mixed_queue)\<rparr>)
         \<and> (\<forall>x\<in>set (queues mixed_queue). q_position x = 0
               \<longrightarrow> x \<in> set (queues (snd (call_next mixed_queue 7)))))"
proof -
  have h1: "get_provider_by_owner mixed_queue 7 = Some (1, ''Salon A'', ''aaaa1111'')"
    by code_simp
  have h2: "distinct (map q_id (queues mixed_queue))"
    by code_simp
  have h3: "\<exists>r\<in>set (queues mixed_queue). q_provider_id r = 1 \<and> 0 < q_position r"
    by code_simp
  show ?thesis
    by (intro conjI h1 h2 h3 call_next_prefers_walk_in [OF h1 h2 h3])
qed

text \<open>
  Claim C6. When the caller's provider has no entry with \<open>position > 0\<close>, \<open>call_next\<close>
  takes the provider's entry whose (date, time) is least among all entries of that
  provider; no entry is set aside because its date has passed, since the selection never
  looks at the current date. The entry is returned with its date and time and exactly
  that row is deleted. When the provider has no entry at all the reply is \<open>EmptyQueue\<close>,
  an ordinary reply, and the database is unchanged.
\<close>

theorem call_next_scheduled_or_empty:
  assumes owner: "get_provider_by_owner s from_user = Some (pid, name, ref)"
    and ids: "distinct (map q_id (queues s))"
    and no_line: "\<forall>r\<in>set (queues s). q_provider_id r = pid \<longrightarrow> \<not> 0 < q_position r"
  shows "if \<exists>r\<in>set (queues s). q_provider_id r = pid
         then \<exists>r\<in>set (queues s).
                q_provider_id r = pid
              \<and> (\<forall>x\<in>set (queues s). q_provider_id x = pid
                    \<longrightarrow> (q_date r, q_time r) \<le> (q_date x, q_time x))
              \<and> call_next s from_user =
                  (CalledScheduled (q_user_id r) (q_service_id r)
                     (service_name s (q_service_id r) ''Xizmat'') (q_date r) (q_time r),
                   s\<lparr>queues := filter (\<lambda>x. x \<noteq> r) (queues s)\<rparr>)
         else call_next s from_user = (EmptyQueue, s)"
proof -
  have first: "pop_next_in_queue s pid False = (None, s)"
    using no_line by (intro pop_walkin_none) blast
  show ?thesis
  proof (cases "\<exists>r\<in>set (queues s). q_provider_id r = pid")
    case True
    from pop_scheduled_found [OF True] obtain r where
      rin: "r \<in> set (queues s)" and rp: "q_provider_id r = pid"
      and rmin: "\<forall>x\<in>set (queues s). q_provider_id x = pid
                    \<longrightarrow> (q_date r, q_time r) \<le> (q_date x, q_time x)"
      and pop: "pop_next_in_queue s pid True =
                 (Some (Scheduled (q_user_id r) (q_service_id r) (q_date r) (q_time r)),
                  s\<lparr>queues := filter (\<lambda>x. q_id x \<noteq> q_id r) (queues s)\<rparr>)"
      by blast
    have call: "call_next s from_user =
                  (CalledScheduled (q_user_id r) (q_service_id r)
                     (service_name s (q_service_id r) ''Xizmat'') (q_date r) (q_time r),
                   s\<lparr>queues := filter (\<lambda>x. x \<noteq> r) (queues s)\<rparr>)"
      by (simp add: call_next_def owner first pop service_name_queues filter_id_eq [OF ids rin])
    from rin rp rmin call have "\<exists>r\<in>set (queues s).
                q_provider_id r = pid
              \<and> (\<forall>x\<in>set (queues s). q_provider_id x = pid
                    \<longrightarrow> (q_date r, q_time r) \<le> (q_date x, q_time x))
              \<and> call_next s from_user =
                  (CalledScheduled (q_user_id r) (q_service_id r)
                     (service_name s (q_service_id r) ''Xizmat'') (q_date r) (q_time r),
                   s\<lparr>queues := filter (\<lambda>x. x \<noteq> r) (queues s)\<rparr>)"
      by blast
    with True show ?thesis
      by (simp only: if_True)
  next
    case False
    have "call_next s from_user = (EmptyQueue, s)"
      by (simp add: call_next_def owner first pop_scheduled_none [OF False])
    with False show ?thesis
      by (simp only: if_False)
  qed
qed

theorem call_next_scheduled_or_empty_witness:
  "get_provider_by_owner scheduled_only 7 = Some (1, ''Salon A'', ''aaaa1111'')
   \<and> distinct (map q_id (queues scheduled_only))
   \<and> \<not> (\<exists>r\<in>set (queues scheduled_only). q_provider_id r = 1 \<and> 0 < q_position r)
   \<and> (\<exists>r\<in>set (queues scheduled_only). q_provider_id r = 1)
   \<and> (\<exists>r\<in>set (queues scheduled_only).
                q_provider_id r = 1
              \<and> (\<forall>x\<in>set (queues scheduled_only). q_provider_id x = 1
                    \<longrightarrow> (q_date r, q_time r) \<le> (q_date x, q_time x))
              \<and> call_next scheduled_only 7 =
                  (CalledScheduled (q_user_id r) (q_service_id r)
                     (service_name scheduled_only (q_service_id r) ''Xizmat'')
                     (q_date r) (q_time r),
                   scheduled_only\<lparr>queues := filter (\<lambda>x. x \<noteq> r) (queues scheduled_only)\<rparr>))
   \<and> get_provider_by_owner scheduled_only 8 = Some (2, ''Salon B'', ''bbbb2222'')
   \<and> call_next scheduled_only 8 = (EmptyQueue, scheduled_only)"
proof -
  have h1: "get_provider_by_owner scheduled_only 7 = Some (1, ''Salon A'', ''aaaa1111'')"
    by code_simp
  have h2: "distinct (map q_id (queues scheduled_only))"
    by code_simp
  have h3': "\<not> (\<exists>r\<in>set (queues scheduled_only). q_provider_id r = 1 \<and> 0 < q_position r)"
    by code_simp
  then have h3: "\<forall>r\<in>set (queues scheduled_only). q_provider_id r = 1 \<longrightarrow> \<not> 0 < q_position r"
    by blast
  have h4: "\<exists>r\<in>set (queues scheduled_only). q_provider_id r = 1"
    by code_simp
  have k1: "get_provider_by_owner scheduled_only 8 = Some (2, ''Salon B'', ''bbbb2222'')"
    by code_simp
  have k3: "\<forall>r\<in>set (queues scheduled_only). q_provider_id r = 2 \<longrightarrow> \<not> 0 < q_position r"
    by code_simp
  have k4: "\<not> (\<exists>r\<in>set (queues scheduled_only). q_provider_id r = 2)"
    by code_simp
  note a = call_next_scheduled_or_empty [OF h1 h2 h3, simplified h4 if_True]
  note b = call_next_scheduled_or_empty [OF k1 h2 k3]
  from b k4 have b': "call_next scheduled_only 8 = (EmptyQueue, scheduled_only)"
    by (simp only: if_False)
  show ?thesis
    by (intro conjI h1 h2 h3' h4 a k1 b')
qed

section \<open>Booking\<close>

text \<open>
  Claim C4. \<open>client_book_slot\<close> answers \<open>SlotConflict\<close> exactly when the requested time is
  among the booked slots of the provider and date as they are when the booking is made,
  that is, when a queue entry or a busy block of that provider holds that date and time.
  The check is part of the booking itself. A booking answered with \<open>SlotConflict\<close> leaves
  the database as it was.
\<close>

theorem client_book_slot_conflict:
  "(fst (client_book_slot s p svc d t u) = SlotConflict \<longleftrightarrow> t \<in> set (get_booked_slots s p d))
   \<and> (t \<in> set (get_booked_slots s p d) \<longleftrightarrow>
        (\<exists>r\<in>set (queues s). q_provider_id r = p \<and> q_date r = Some d \<and> q_time r = Some t)
      \<or> (\<exists>b\<in>set (busy_times s). b_provider_id b = p \<and> b_date b = d \<and> b_time b = t))
   \<and> (fst (client_book_slot s p svc d t u) = SlotConflict
        \<longrightarrow> snd (client_book_slot s p svc d t u) = s)"
proof (intro conjI)
  show "fst (client_book_slot s p svc d t u) = SlotConflict \<longleftrightarrow> t \<in> set (get_booked_slots s p d)"
    by (simp add: client_book_slot_def Let_def split: sum.splits prod.splits)
  show "t \<in> set (get_booked_slots s p d) \<longleftrightarrow>
        (\<exists>r\<in>set (queues s). q_provider_id r = p \<and> q_date r = Some d \<and> q_time r = Some t)
      \<or> (\<exists>b\<in>set (busy_times s). b_provider_id b = p \<and> b_date b = d \<and> b_time b = t)"
    by (rule booked_slots_iff)
  show "fst (client_book_slot s p svc d t u) = SlotConflict
        \<longrightarrow> snd (client_book_slot s p svc d t u) = s"
    by (simp add: client_book_slot_def Let_def split: sum.splits prod.splits)
qed

theorem client_book_slot_conflict_witness:
  "(\<exists>r\<in>set (queues first_booking).
       q_provider_id r = 1 \<and> q_date r = Some ''2025-08-25'' \<and> q_time r = Some ''10:00'')
   \<and> client_book_slot first_booking 1 1 ''2025-08-25'' ''10:00'' 101 = (SlotConflict, first_booking)
   \<and> fst (client_book_slot first_booking 1 1 ''2025-08-25'' ''09:00'' 101) \<noteq> SlotConflict"
proof -
  have h: "\<exists>r\<in>set (queues first_booking).
       q_provider_id r = 1 \<and> q_date r = Some ''2025-08-25'' \<and> q_time r = Some ''10:00''"
    by code_simp
  have free: "''09:00'' \<notin> set (get_booked_slots first_booking 1 ''2025-08-25'')"
    by code_simp
  from h client_book_slot_conflict [of first_booking 1 1 "''2025-08-25''" "''10:00''" 101]
  have "fst (client_book_slot first_booking 1 1 ''2025-08-25'' ''10:00'' 101) = SlotConflict"
    and "snd (client_book_slot first_booking 1 1 ''2025-08-25'' ''10:00'' 101) = first_booking"
    by blast+
  then have a: "client_book_slot first_booking 1 1 ''2025-08-25'' ''10:00'' 101
                  = (SlotConflict, first_booking)"
    by (simp add: prod_eq_iff)
  from free client_book_slot_conflict [of first_booking 1 1 "''2025-08-25''" "''09:00''" 101]
  have b: "fst (client_book_slot first_booking 1 1 ''2025-08-25'' ''09:00'' 101) \<noteq> SlotConflict"
    by blast
  show ?thesis
    by (intro conjI h a b)
qed

text \<open>
  Claim C5. The grid of \<open>client_pick_date\<close> is the 17 half-hour marks from 09:00 to
  17:00. The available slots of a provider and date are the grid without the booked
  slots, in grid order, so no available slot is booked. When a client books an
  available slot \<open>t\<close> on a date \<open>d\<close> (a date is a non-empty string) and the booking is
  accepted, the available slots of that provider and date afterwards are the former
  ones without \<open>t\<close>.
\<close>

theorem available_is_grid_minus_booked:
  "slots = [''09:00'', ''09:30'', ''10:00'', ''10:30'', ''11:00'', ''11:30'', ''12:00'',
            ''12:30'', ''13:00'', ''13:30'', ''14:00'', ''14:30'', ''15:00'', ''15:30'',
            ''16:00'', ''16:30'', ''17:00'']
   \<and> length slots = 17
   \<and> available s p d = filter (\<lambda>x. x \<notin> set (get_booked_slots s p d)) slots
   \<and> set (available s p d) \<inter> set (get_booked_slots s p d) = {}
   \<and> (d \<noteq> [] \<and> t \<in> set (available s p d)
        \<and> client_book_slot s p svc d t u = (Booked ow nm, s')
        \<longrightarrow> available s' p d = removeAll t (available s p d)
          \<and> t \<notin> set (available s' p d))"
proof (intro conjI impI)
  show "slots = [''09:00'', ''09:30'', ''10:00'', ''10:30'', ''11:00'', ''11:30'', ''12:00'',
            ''12:30'', ''13:00'', ''13:30'', ''14:00'', ''14:30'', ''15:00'', ''15:30'',
            ''16:00'', ''16:30'', ''17:00'']"
    by (rule slots_list)
  show "length slots = 17"
    unfolding slots_list by simp
  show avail: "available s p d = filter (\<lambda>x. x \<notin> set (get_booked_slots s p d)) slots"
    by (simp add: available_def Let_def)
  show "set (available s p d) \<inter> set (get_booked_slots s p d) = {}"
    unfolding avail by auto
next
  assume asm: "d \<noteq> [] \<and> t \<in> set (available s p d)
        \<and> client_book_slot s p svc d t u = (Booked ow nm, s')"
  then have tslot: "t \<in> set slots" and tfree: "t \<notin> set (get_booked_slots s p d)"
    by (simp_all add: available_def Let_def)
  from asm tfree obtain pos where
    add: "add_to_queue s p u svc (Some d) (Some t) = Inr (pos, s')"
    by (auto simp: client_book_slot_def Let_def split: sum.splits prod.splits)
  have "truthy (Some d) \<and> truthy (Some t)"
    using asm slots_nonempty_strings [OF tslot] by (simp add: truthy_Some)
  with add_to_queue_cases [OF add] have ins: "insert_queue s p u svc 0 (Some d) (Some t) = Inr s'"
    by blast
  note fields = insert_queue_fields [OF ins]
  have booked: "x \<in> set (get_booked_slots s' p d) \<longleftrightarrow> x \<in> set (get_booked_slots s p d) \<or> x = t"
    for x
    unfolding booked_slots_iff fields by auto
  have "available s' p d = filter (\<lambda>x. x \<notin> set (get_booked_slots s p d) \<and> x \<noteq> t) slots"
    by (simp add: available_def Let_def booked)
  also have "\<dots> = removeAll t (available s p d)"
    by (simp add: available_def Let_def removeAll_filter_not_eq conj_commute eq_commute)
  finally show "available s' p d = removeAll t (available s p d)" .
  then show "t \<notin> set (available s' p d)"
    by simp
qed

theorem available_is_grid_minus_booked_witness:
  "''2025-08-25'' \<noteq> [] \<and> ''10:00'' \<in> set (available (run two_salons) 1 ''2025-08-25'')
   \<and> client_book_slot (run two_salons) 1 1 ''2025-08-25'' ''10:00'' 100
        = (Booked (Some 7) ''Haircut'', first_booking)
   \<and> available first_booking 1 ''2025-08-25''
        = removeAll ''10:00'' (available (run two_salons) 1 ''2025-08-25'')
   \<and> ''09:00'' \<in> set (available first_booking 1 ''2025-08-25'')"
proof -
  have h1: "''2025-08-25'' \<noteq> []"
    by simp
  have h2: "''10:00'' \<in> set (available (run two_salons) 1 ''2025-08-25'')"
    by code_simp
  have "fst (client_book_slot (run two_salons) 1 1 ''2025-08-25'' ''10:00'' 100)
          = Booked (Some 7) ''Haircut''"
    by code_simp
  then have h3: "client_book_slot (run two_salons) 1 1 ''2025-08-25'' ''10:00'' 100
        = (Booked (Some 7) ''Haircut'', first_booking)"
    by (simp add: first_booking_def prod_eq_iff)
  have h4: "''09:00'' \<in> set (available first_booking 1 ''2025-08-25'')"
    by code_simp
  from available_is_grid_minus_booked
         [of "run two_salons" 1 "''2025-08-25''" "''10:00''" 1 100 "Some 7" "''Haircut''"
             first_booking] h1 h2 h3
  have "available first_booking 1 ''2025-08-25''
        = removeAll ''10:00'' (available (run two_salons) 1 ''2025-08-25'')"
    by blast
  with h1 h2 h3 h4 show ?thesis
    by (intro conjI)
qed

section \<open>Busy blocks\<close>

text \<open>
  Claim C10. \<open>admin_delete_busy\<close> compares the caller with the owner of the provider
  named in the payload and with nothing else; when they agree it deletes the busy block
  with the payload's block id, whichever provider that block belongs to. There is an
  input where the block belongs to another provider than the one in the payload, the
  caller owns only the payload's provider, and the other provider's block is removed.
\<close>

theorem admin_delete_busy_checks_payload_provider_only:
  "admin_delete_busy s busy_id pid from_user =
     (if get_provider_owner s pid = Some from_user
      then (Deleted, s\<lparr>busy_times := filter (\<lambda>r. b_id r \<noteq> busy_id) (busy_times s)\<rparr>)
      else (NoPermission, s))
   \<and> (\<exists>s0 b p u.
         b \<in> set (busy_times s0) \<and> b_provider_id b \<noteq> p
       \<and> get_provider_owner s0 p = Some u
       \<and> get_provider_owner s0 (b_provider_id b) \<noteq> Some u
       \<and> fst (admin_delete_busy s0 (b_id b) p u) = Deleted
       \<and> b \<notin> set (busy_times (snd (admin_delete_busy s0 (b_id b) p u))))"
proof (rule conjI)
  show "admin_delete_busy s busy_id pid from_user =
     (if get_provider_owner s pid = Some from_user
      then (Deleted, s\<lparr>busy_times := filter (\<lambda>r. b_id r \<noteq> busy_id) (busy_times s)\<rparr>)
      else (NoPermission, s))"
    by (simp add: admin_delete_busy_def remove_busy_time_def Let_def)
  have "block_of_b \<in> set (busy_times busy_salon_b) \<and> b_provider_id block_of_b \<noteq> 1
       \<and> get_provider_owner busy_salon_b 1 = Some 7
       \<and> get_provider_owner busy_salon_b (b_provider_id block_of_b) \<noteq> Some 7
       \<and> fst (admin_delete_busy busy_salon_b (b_id block_of_b) 1 7) = Deleted
       \<and> block_of_b \<notin> set (busy_times (snd (admin_delete_busy busy_salon_b (b_id block_of_b) 1 7)))"
    by code_simp
  then show "\<exists>s0 b p u.
         b \<in> set (busy_times s0) \<and> b_provider_id b \<noteq> p
       \<and> get_provider_owner s0 p = Some u
       \<and> get_provider_owner s0 (b_provider_id b) \<noteq> Some u
       \<and> fst (admin_delete_busy s0 (b_id b) p u) = Deleted
       \<and> b \<notin> set (busy_times (snd (admin_delete_busy s0 (b_id b) p u)))"
    by blast
qed

theorem admin_delete_busy_checks_payload_provider_only_witness:
  "get_provider_owner busy_salon_b 1 = Some 7
   \<and> get_busy_times busy_salon_b 2 = [(1, ''2025-08-25'', ''10:00'')]
   \<and> fst (admin_delete_busy busy_salon_b 1 1 7) = Deleted
   \<and> get_busy_times (snd (admin_delete_busy busy_salon_b 1 1 7)) 2 = []"
proof -
  have h: "get_provider_owner busy_salon_b 1 = Some 7"
    by code_simp
  have before: "get_busy_times busy_salon_b 2 = [(1, ''2025-08-25'', ''10:00'')]"
    by code_simp
  have gone: "get_busy_times
      (busy_salon_b\<lparr>busy_times := filter (\<lambda>r. b_id r \<noteq> 1) (busy_times busy_salon_b)\<rparr>) 2 = []"
    by code_simp
  from admin_delete_busy_checks_payload_provider_only [of busy_salon_b 1 1 7] h
  have eq: "admin_delete_busy busy_salon_b 1 1 7 =
      (Deleted, busy_salon_b\<lparr>busy_times := filter (\<lambda>r. b_id r \<noteq> 1) (busy_times busy_salon_b)\<rparr>)"
    by simp
  show ?thesis
    by (intro conjI h before) (simp_all only: eq fst_conv snd_conv gone)
qed

section \<open>Unregistration\<close>

text \<open>
  What unregistration does on any database: the caller's provider goes and, by cascade,
  its services, queue entries and busy blocks; the services and busy blocks of every
  other provider stay; of the queue entries of another provider exactly those stay that
  do not refer to a service of the deleted provider.
\<close>

lemma unregister_cascade:
  assumes owner: "get_provider_by_owner s from_user = Some (pid, name, ref)"
  shows "get_provider_owner (snd (unregister s from_user)) pid = None
       \<and> get_services (snd (unregister s from_user)) pid = []
       \<and> queue_rows (snd (unregister s from_user)) pid = []
       \<and> get_queue (snd (unregister s from_user)) pid = []
       \<and> get_busy_times (snd (unregister s from_user)) pid = []
       \<and> get_booked_slots (snd (unregister s from_user)) pid d = []
       \<and> (p \<noteq> pid \<longrightarrow>
             get_services (snd (unregister s from_user)) p = get_services s p
           \<and> get_busy_times (snd (unregister s from_user)) p = get_busy_times s p
           \<and> queue_rows (snd (unregister s from_user)) p =
               filter (\<lambda>r. q_service_id r \<notin> s_id ` {x \<in> set (services s). s_provider_id x = pid})
                 (queue_rows s p))"
proof -
  define s' where "s' = snd (unregister s from_user)"
  have s': "s' = delete_provider s pid"
    by (simp add: s'_def unregister_def owner)
  note fields = delete_provider_fields [OF owner_provider_exists [OF owner], folded s']
  have no_p: "filter (\<lambda>r. p_id r = pid) (providers s') = []"
    by (auto simp: fields filter_empty_conv)
  have no_s: "filter (\<lambda>r. s_provider_id r = pid) (services s') = []"
    by (auto simp: fields filter_empty_conv)
  have no_q: "filter (\<lambda>r. q_provider_id r = pid) (queues s') = []"
    by (auto simp: fields filter_empty_conv)
  have no_w: "filter (\<lambda>r. q_provider_id r = pid \<and> 0 < q_position r) (queues s') = []"
    by (auto simp: fields filter_empty_conv)
  have no_d: "filter (\<lambda>r. q_provider_id r = pid \<and> q_date r = Some d) (queues s') = []"
    by (auto simp: fields filter_empty_conv)
  have no_b: "filter (\<lambda>r. b_provider_id r = pid) (busy_times s') = []"
    by (auto simp: fields filter_empty_conv)
  have no_bd: "filter (\<lambda>r. b_provider_id r = pid \<and> b_date r = d) (busy_times s') = []"
    by (auto simp: fields filter_empty_conv)
  have a: "get_provider_owner s' pid = None"
    by (simp add: get_provider_owner_def no_p fetchone_def)
  have b: "get_services s' pid = []"
    by (simp add: get_services_def no_s)
  have c: "queue_rows s' pid = []"
    by (simp add: queue_rows_def no_q)
  have c': "get_queue s' pid = []"
    by (simp add: get_queue_def no_w)
  have e: "get_busy_times s' pid = []"
    by (simp add: get_busy_times_def no_b)
  have f: "get_booked_slots s' pid d = []"
    by (simp add: get_booked_slots_def no_d no_bd)
  have g: "get_services s' p = get_services s p" if "p \<noteq> pid"
  proof -
    have "filter (\<lambda>r. s_provider_id r = p) (services s')
            = filter (\<lambda>r. s_provider_id r = p) (services s)"
      using that by (auto simp: fields intro: filter_cong)
    then show ?thesis
      by (simp add: get_services_def)
  qed
  have h: "get_busy_times s' p = get_busy_times s p" if "p \<noteq> pid"
  proof -
    have "filter (\<lambda>r. b_provider_id r = p) (busy_times s')
            = filter (\<lambda>r. b_provider_id r = p) (busy_times s)"
      using that by (auto simp: fields intro: filter_cong)
    then show ?thesis
      by (simp add: get_busy_times_def)
  qed
  have i: "queue_rows s' p =
             filter (\<lambda>r. q_service_id r \<notin> s_id ` {x \<in> set (services s). s_provider_id x = pid})
               (queue_rows s p)" if "p \<noteq> pid"
  proof -
    have "filter (\<lambda>r. q_provider_id r = p) (queues s')
            = filter (\<lambda>r. q_service_id r \<notin> s_id ` {x \<in> set (services s). s_provider_id x = pid})
                (filter (\<lambda>r. q_provider_id r = p) (queues s))"
      using that by (auto simp: fields intro: filter_cong)
    then show ?thesis
      by (simp add: queue_rows_def filter_sort)
  qed
  from a b c c' e f g h i show ?thesis
    unfolding s'_def by blast
qed

text \<open>
  On a database where every queue entry refers to a service of its own provider, the
  queue of every other provider is untouched as well.
\<close>

lemma unregister_keeps_other_providers:
  assumes owner: "get_provider_by_owner s from_user = Some (pid, name, ref)"
    and own: "own_services s"
    and other: "p \<noteq> pid"
  shows "get_services (snd (unregister s from_user)) p = get_services s p
       \<and> get_busy_times (snd (unregister s from_user)) p = get_busy_times s p
       \<and> queue_rows (snd (unregister s from_user)) p = queue_rows s p"
proof -
  have "q_service_id r \<notin> s_id ` {x \<in> set (services s). s_provider_id x = pid}"
    if "r \<in> set (queue_rows s p)" for r
  proof
    assume "q_service_id r \<in> s_id ` {x \<in> set (services s). s_provider_id x = pid}"
    then obtain sv where sv: "sv \<in> set (services s)" "s_provider_id sv = pid"
      "s_id sv = q_service_id r"
      by auto
    from that have r: "r \<in> set (queues s)" "q_provider_id r = p"
      by (simp_all add: queue_rows_def)
    from own r(1) sv(1) sv(3) have "s_provider_id sv = q_provider_id r"
      unfolding own_services_def by blast
    with sv(2) r(2) other show False
      by simp
  qed
  then have "filter (\<lambda>r. q_service_id r \<notin> s_id ` {x \<in> set (services s). s_provider_id x = pid})
               (queue_rows s p) = queue_rows s p"
    by (simp add: filter_id_conv)
  with unregister_cascade [OF owner, of "[]" p] other show ?thesis
    by simp
qed

lemma cross_booking_not_own_services: "\<not> own_services cross_booking"
  by code_simp

lemma first_booking_own_services: "own_services first_booking"
  by code_simp

text \<open>
  Claim C8. Unregistering is to delete the provider's own services, queue entries and
  busy blocks and to leave the entities of other providers alone. \<open>client_book_slot\<close>
  inserts the provider and the service of its payload without checking that the service
  belongs to the provider, and the table \<^verbatim>\<open>queues\<close> cascades on \<^verbatim>\<open>service_id\<close> as well
  as on \<^verbatim>\<open>provider_id\<close>. With the payload \<^verbatim>\<open>book:2:1:2025-08-25:10:00\<close> client 100
  is booked at provider 2 for service 1, a service of provider 1 (owner 7). When owner 7
  unregisters, the services and busy blocks of provider 2 stay, but the entry in the queue
  of provider 2 is deleted.
\<close>

theorem unregister_removes_foreign_entry:
  "get_provider_by_ref (run two_salons) ''bbbb2222'' = Some (2, ''Salon B'')
   \<and> get_services (run two_salons) 1 = [(1, ''Haircut'')]
   \<and> fst (client_book_slot (run two_salons) 2 1 ''2025-08-25'' ''10:00'' 100)
        = Booked (Some 8) ''Haircut''
   \<and> get_provider_by_owner cross_booking 7 = Some (1, ''Salon A'', ''aaaa1111'')
   \<and> map (\<lambda>r. (q_provider_id r, q_user_id r, q_service_id r)) (queue_rows cross_booking 2)
        = [(2, 100, 1)]
   \<and> fst (unregister cross_booking 7) = True
   \<and> get_services (snd (unregister cross_booking 7)) 2 = [(2, ''Shave'')]
   \<and> queue_rows (snd (unregister cross_booking 7)) 2 = []"
  by code_simp

section \<open>Queue listing\<close>

text \<open>
  Claim C2, as amended. \<open>show_queue\<close> lists all entries of the caller's provider in the
  order of the query, \<^verbatim>\<open>ORDER BY position ASC, date, time ASC\<close>: positions never decrease
  along the list, and entries of equal position are in ascending (date, time) order.
  So the scheduled entries (position 0) come first, in chronological order, and the
  walk-ins follow in ascending position; a walk-in never precedes a scheduled entry.
\<close>

theorem show_queue_order:
  assumes owner: "get_provider_by_owner s from_user = Some (pid, name, ref)"
  shows "show_queue s from_user =
           (if queue_rows s pid = [] then ShowEmpty
            else ShowLines (map (queue_line s) (queue_rows s pid)))
       \<and> set (queue_rows s pid) = {r \<in> set (queues s). q_provider_id r = pid}
       \<and> length (queue_rows s pid) = length (filter (\<lambda>r. q_provider_id r = pid) (queues s))
       \<and> (\<forall>i j. i < j \<and> j < length (queue_rows s pid) \<longrightarrow>
             q_position (queue_rows s pid ! i) \<le> q_position (queue_rows s pid ! j)
           \<and> (q_position (queue_rows s pid ! i) = q_position (queue_rows s pid ! j) \<longrightarrow>
                (q_date (queue_rows s pid ! i), q_time (queue_rows s pid ! i))
                  \<le> (q_date (queue_rows s pid ! j), q_time (queue_rows s pid ! j)))
           \<and> \<not> (0 < q_position (queue_rows s pid ! i) \<and> q_position (queue_rows s pid ! j) = 0))"
proof (intro conjI allI impI)
  show "show_queue s from_user =
           (if queue_rows s pid = [] then ShowEmpty
            else ShowLines (map (queue_line s) (queue_rows s pid)))"
    by (simp add: show_queue_def owner)
  show "set (queue_rows s pid) = {r \<in> set (queues s). q_provider_id r = pid}"
    by (simp add: queue_rows_def)
  show "length (queue_rows s pid) = length (filter (\<lambda>r. q_provider_id r = pid) (queues s))"
    by (simp add: queue_rows_def)
next
  fix i j
  assume ij: "i < j \<and> j < length (queue_rows s pid)"
  let ?key = "\<lambda>r. (q_position r, q_date r, q_time r)"
  have "sorted (map ?key (queue_rows s pid))"
    unfolding queue_rows_def by (rule sorted_sort_key)
  with ij have "map ?key (queue_rows s pid) ! i \<le> map ?key (queue_rows s pid) ! j"
    by (simp add: sorted_iff_nth_mono_less)
  with ij have le: "?key (queue_rows s pid ! i) \<le> ?key (queue_rows s pid ! j)"
    by simp
  from le show "q_position (queue_rows s pid ! i) \<le> q_position (queue_rows s pid ! j)"
    by (auto simp: less_eq_prod_def)
  from le show "(q_date (queue_rows s pid ! i), q_time (queue_rows s pid ! i))
                  \<le> (q_date (queue_rows s pid ! j), q_time (queue_rows s pid ! j))"
    if "q_position (queue_rows s pid ! i) = q_position (queue_rows s pid ! j)"
    using that by (simp add: less_eq_prod_def [of "?key (queue_rows s pid ! i)"])
  from le show "\<not> (0 < q_position (queue_rows s pid ! i) \<and> q_position (queue_rows s pid ! j) = 0)"
    by (auto simp: less_eq_prod_def)
qed

theorem show_queue_order_witness:
  "get_provider_by_owner mixed_queue 7 = Some (1, ''Salon A'', ''aaaa1111'')
   \<and> (0::nat) < 2 \<and> 2 < length (queue_rows mixed_queue 1)
   \<and> q_position (queue_rows mixed_queue 1 ! 0) \<le> q_position (queue_rows mixed_queue 1 ! 2)
   \<and> \<not> (0 < q_position (queue_rows mixed_queue 1 ! 0)
         \<and> q_position (queue_rows mixed_queue 1 ! 2) = 0)"
proof -
  have h: "get_provider_by_owner mixed_queue 7 = Some (1, ''Salon A'', ''aaaa1111'')"
    by code_simp
  have l: "2 < length (queue_rows mixed_queue 1)"
    by code_simp
  have z: "(0::nat) < 2"
    by simp
  from show_queue_order [OF h] z l show ?thesis
    by (intro conjI h z l) blast+
qed

text \<open>
  The claim as stated puts the entries with \<open>position > 0\<close> before the scheduled ones.
  The listing of \<open>mixed_queue\<close> (walk-ins at positions 1 and 2, scheduled entries on
  2025-08-20 09:00 and 2025-08-19 16:30) has both scheduled entries first.
\<close>

theorem show_queue_lists_scheduled_first:
  "show_queue mixed_queue 7 = ShowLines
     [ScheduledLine (Some ''2025-08-19'') (Some ''16:30'') 103 ''Haircut'',
      ScheduledLine (Some ''2025-08-20'') (Some ''09:00'') 102 ''Haircut'',
      WalkinLine 1 100 ''Haircut'',
      WalkinLine 2 101 ''Haircut'']"
  by code_simp

section \<open>Shapes of queue entries\<close>

text \<open>
  Claim C9. In every database that the program's operations can produce from the empty
  one, each queue entry is either a walk-in (positive position, no date, no time) or a
  scheduled entry (position 0, a date and a time), never both and never neither. An
  entry made by \<open>add_to_queue\<close> is of the scheduled shape when a date and a time are
  given and of the walk-in shape otherwise. The next walk-in position does not depend
  on the scheduled entries: it is the same when they are all taken out of the table.
\<close>

theorem queue_entries_have_one_shape:
  "(\<forall>r\<in>set (queues (run ops)). walk_in_shape r \<noteq> scheduled_shape r)
   \<and> (add_to_queue s p u svc d t = Inr (pos, s') \<longrightarrow>
        (\<exists>r. queues s' = queues s @ [r] \<and> q_position r = pos
            \<and> (if truthy d \<and> truthy t
                then scheduled_shape r \<and> \<not> walk_in_shape r \<and> pos = 0
                     \<and> q_date r = d \<and> q_time r = t
                else walk_in_shape r \<and> \<not> scheduled_shape r \<and> pos = 1 + max_position s p)))
   \<and> max_position s p
        = max_position (s\<lparr>queues := filter (\<lambda>r. \<not> scheduled_shape r) (queues s)\<rparr>) p"
proof (intro conjI impI)
  show "\<forall>r\<in>set (queues (run ops)). walk_in_shape r \<noteq> scheduled_shape r"
    using run_well_shaped [of ops] by (simp add: well_shaped_def)
next
  assume "add_to_queue s p u svc d t = Inr (pos, s')"
  from add_to_queue_row [OF this]
  show "\<exists>r. queues s' = queues s @ [r] \<and> q_position r = pos
            \<and> (if truthy d \<and> truthy t
                then scheduled_shape r \<and> \<not> walk_in_shape r \<and> pos = 0
                     \<and> q_date r = d \<and> q_time r = t
                else walk_in_shape r \<and> \<not> scheduled_shape r \<and> pos = 1 + max_position s p)"
    by blast
next
  have "filter (\<lambda>r. q_provider_id r = p \<and> 0 < q_position r)
          (filter (\<lambda>r. \<not> scheduled_shape r) (queues s))
        = filter (\<lambda>r. q_provider_id r = p \<and> 0 < q_position r) (queues s)"
    by (auto simp: scheduled_shape_def intro: filter_cong)
  then show "max_position s p
        = max_position (s\<lparr>queues := filter (\<lambda>r. \<not> scheduled_shape r) (queues s)\<rparr>) p"
    by (simp add: max_position_def)
qed

theorem queue_entries_have_one_shape_witness:
  "set (queues mixed_queue) \<noteq> {}
   \<and> list_all (\<lambda>r. walk_in_shape r \<noteq> scheduled_shape r) (queues mixed_queue)
   \<and> add_to_queue mixed_queue 1 104 1 (Some ''2025-08-21'') None
       = Inr (3, snd (projr (add_to_queue mixed_queue 1 104 1 (Some ''2025-08-21'') None)))
   \<and> (\<exists>r. queues (snd (projr (add_to_queue mixed_queue 1 104 1 (Some ''2025-08-21'') None)))
             = queues mixed_queue @ [r]
          \<and> walk_in_shape r \<and> q_position r = 3)"
proof -
  have ne: "set (queues mixed_queue) \<noteq> {}"
    by code_simp
  have add: "add_to_queue mixed_queue 1 104 1 (Some ''2025-08-21'') None
       = Inr (3, snd (projr (add_to_queue mixed_queue 1 104 1 (Some ''2025-08-21'') None)))"
    by code_simp
  have nt: "\<not> (truthy (Some ''2025-08-21'') \<and> truthy None)"
    by (simp add: truthy_def)
  note inst = queue_entries_have_one_shape
    [of "two_salons @
     [AddToQueue 1 100 1 None None, AddToQueue 1 101 1 None None,
      AddToQueue 1 102 1 (Some ''2025-08-20'') (Some ''09:00''),
      AddToQueue 1 103 1 (Some ''2025-08-19'') (Some ''16:30'')]"
     mixed_queue 1 104 1 "Some ''2025-08-21''" None 3
     "snd (projr (add_to_queue mixed_queue 1 104 1 (Some ''2025-08-21'') None))",
     folded mixed_queue_def]
  from inst have all: "list_all (\<lambda>r. walk_in_shape r \<noteq> scheduled_shape r) (queues mixed_queue)"
    by (simp only: list_all_iff) blast
  from inst add nt
  have row: "\<exists>r. queues (snd (projr (add_to_queue mixed_queue 1 104 1 (Some ''2025-08-21'') None)))
             = queues mixed_queue @ [r]
          \<and> walk_in_shape r \<and> q_position r = 3"
    by (simp only: if_False) blast
  show ?thesis
    by (intro conjI ne all add row)
qed

section \<open>Walk-in numbering\<close>

text \<open>
  Claim C3, as amended. A walk-in enqueue assigns 1 plus the largest position among the
  walk-in entries the provider has in the queue at that moment (0 when there is none),
  so the new position exceeds every walk-in position then present. Along any sequence
  of walk-in enqueues and pops in which every pop leaves at least one walk-in of the
  provider in the queue, the assigned positions are strictly increasing and no value is
  assigned twice.
\<close>

theorem walk_in_positions:
  "max_position s p = Max (insert 0 (q_position ` set (walk_ins s p)))
   \<and> (add_to_queue s p u svc None None = Inr (pos, s') \<longrightarrow>
        pos = 1 + max_position s p
      \<and> (\<forall>r\<in>set (walk_ins s p). q_position r < pos)
      \<and> max_position s' p = pos)
   \<and> (ids_ok s \<and> line_kept s p ops \<longrightarrow>
        sorted_wrt (<) (positions s p ops)
      \<and> distinct (positions s p ops)
      \<and> (\<forall>x\<in>set (positions s p ops). max_position s p < x))"
proof (intro conjI impI)
  show "max_position s p = Max (insert 0 (q_position ` set (walk_ins s p)))"
    by (rule max_position_Max)
next
  assume add: "add_to_queue s p u svc None None = Inr (pos, s')"
  show "pos = 1 + max_position s p"
    by (rule add_walk_in_max(1) [OF add])
  show "\<forall>r\<in>set (walk_ins s p). q_position r < pos"
    by (rule add_walk_in_max(3) [OF add])
  show "max_position s' p = pos"
    by (rule add_walk_in_max(2) [OF add])
next
  assume "ids_ok s \<and> line_kept s p ops"
  then have inc: "sorted_wrt (<) (positions s p ops)
                \<and> (\<forall>x\<in>set (positions s p ops). max_position s p < x)"
    by (intro positions_increasing) simp_all
  from inc show "sorted_wrt (<) (positions s p ops)"
    by simp
  from inc show "distinct (positions s p ops)"
    by (simp add: strict_sorted_iff)
  from inc show "\<forall>x\<in>set (positions s p ops). max_position s p < x"
    by simp
qed

theorem walk_in_positions_witness:
  "ids_ok (run two_salons)
   \<and> line_kept (run two_salons) 1 [Enqueue 100 1, Enqueue 101 1, Pop, Enqueue 102 1]
   \<and> positions (run two_salons) 1 [Enqueue 100 1, Enqueue 101 1, Pop, Enqueue 102 1] = [1, 2, 3]
   \<and> sorted_wrt (<) (positions (run two_salons) 1 [Enqueue 100 1, Enqueue 101 1, Pop, Enqueue 102 1])
   \<and> distinct (positions (run two_salons) 1 [Enqueue 100 1, Enqueue 101 1, Pop, Enqueue 102 1])"
proof -
  have h1: "ids_ok (run two_salons)"
    by (rule run_ids_ok)
  have h2: "line_kept (run two_salons) 1 [Enqueue 100 1, Enqueue 101 1, Pop, Enqueue 102 1]"
    by code_simp
  have h3: "positions (run two_salons) 1 [Enqueue 100 1, Enqueue 101 1, Pop, Enqueue 102 1]
              = [1, 2, 3]"
    by code_simp
  from walk_in_positions
         [of "run two_salons" 1 100 1 1 "run two_salons"
             "[Enqueue 100 1, Enqueue 101 1, Pop, Enqueue 102 1]"] h1 h2
  have "sorted_wrt (<) (positions (run two_salons) 1 [Enqueue 100 1, Enqueue 101 1, Pop, Enqueue 102 1])"
    and "distinct (positions (run two_salons) 1 [Enqueue 100 1, Enqueue 101 1, Pop, Enqueue 102 1])"
    by blast+
  with h1 h2 h3 show ?thesis
    by (intro conjI)
qed

text \<open>
  The claim as stated says that a position, once assigned, is never assigned again even
  after its entry has been popped. Enqueue, pop, enqueue on provider 1 assigns position
  1 twice: after the pop no walk-in is left, and the maximum is taken over the rows that
  remain.
\<close>

theorem walk_in_position_reused_after_pop:
  "positions (run two_salons) 1 [Enqueue 100 1, Pop, Enqueue 101 1] = [1, 1]"
  by code_simp

section \<open>Registration\<close>

text \<open>
  Claim C7. A caller who already owns a provider is to be refused, so that an owner never
  has two providers. \<open>register_start\<close> refuses such a caller, but \<open>register_finish\<close>
  inserts without looking, and the table has no uniqueness constraint on the owner. Owner
  7 opens the dialogue in chats 1 and 2 while still unregistered and then sends a name
  in each: the first name registers provider 1; when the second name arrives owner 7
  already owns a provider, the conversation of chat 2 is still waiting for a name, and
  \<open>register_finish\<close> registers provider 2 for the same owner.
\<close>

theorem register_finish_registers_owner_twice:
  "fst (register_start empty_db no_dialogue 1 7) = AskName
   \<and> fst (register_start empty_db (snd (register_start empty_db no_dialogue 1 7)) 2 7) = AskName
   \<and> fst after_first_finish = Registered ''aaaa1111''
   \<and> get_provider_by_owner (fst (snd after_first_finish)) 7 = Some (1, ''Salon A'', ''aaaa1111'')
   \<and> snd (snd after_first_finish) (2, 7) = Some RegisterProvider_name
   \<and> fst (register_start (fst (snd after_first_finish)) (snd (snd after_first_finish)) 3 7)
        = AlreadyRegistered
   \<and> fst after_second_finish = Registered ''cccc3333''
   \<and> map (\<lambda>r. (p_id r, p_owner_id r)) (providers (fst (snd after_second_finish)))
        = [(1, 7), (2, 7)]"
  by code_simp


end
